theory Spec2Isabelle
  imports Main "HOL-Library.Word"
begin

unbundle bit_operations_syntax

section \<open>Basic types and constants\<close>

text \<open>
  Modelled from the spec: the headers (net.h, ether.h, ip.h, arp.h, util.h, platform.h)
  are not among the sources. Their constants are written out here with the values the
  wire format fixes (hardware address 6 bytes, protocol address 4 bytes, IP ethertype
  0x0800, hardware type 1, opcodes 1 and 2) and the usual ones for the rest (ARP ethertype
  0x0806, the up flag, the Ethernet device type, the IP interface family, the two return
  codes of \<open>arp_resolve\<close>); no theorem below depends on the particular value of a
  device type, an interface family or a return code.

  Field \<open>f\<close> of a C struct is written with a prefix naming the struct
  (\<open>cache_pa\<close> for \<open>struct arp_cache.pa\<close>), so that the source's local variable
  names (\<open>pa\<close>, \<open>ha\<close>, \<open>len\<close>, \<open>dev\<close>) stay available.
\<close>

type_synonym byte = "8 word"
type_synonym ip_addr_t = "32 word"

definition ETHER_ADDR_LEN :: nat where "ETHER_ADDR_LEN = 6"
definition IP_ADDR_LEN :: nat where "IP_ADDR_LEN = 4"

definition ARP_CACHE_SIZE :: nat where "ARP_CACHE_SIZE = 32"

definition ARP_CACHE_STATE_FREE :: "8 word" where "ARP_CACHE_STATE_FREE = 0"
definition ARP_CACHE_STATE_INCOMPLETE :: "8 word" where "ARP_CACHE_STATE_INCOMPLETE = 1"
definition ARP_CACHE_STATE_RESOLVED :: "8 word" where "ARP_CACHE_STATE_RESOLVED = 2"
definition ARP_CACHE_STATE_STATIC :: "8 word" where "ARP_CACHE_STATE_STATIC = 3"

definition ARP_HRD_ETHER :: "16 word" where "ARP_HRD_ETHER = 0x0001"
definition ETHER_TYPE_IP :: "16 word" where "ETHER_TYPE_IP = 0x0800"
definition ETHER_TYPE_ARP :: "16 word" where "ETHER_TYPE_ARP = 0x0806"
definition ARP_PRO_IP :: "16 word" where "ARP_PRO_IP = ETHER_TYPE_IP"
definition ARP_OP_REQUEST :: "16 word" where "ARP_OP_REQUEST = 1"
definition ARP_OP_REPLY :: "16 word" where "ARP_OP_REPLY = 2"

definition NET_DEVICE_TYPE_ETHERNET :: "16 word" where "NET_DEVICE_TYPE_ETHERNET = 0x0002"
definition NET_DEVICE_FLAG_UP :: "16 word" where "NET_DEVICE_FLAG_UP = 0x0001"
definition NET_IFACE_FAMILY_IP :: int where "NET_IFACE_FAMILY_IP = 1"

definition ARP_RESOLVE_ERROR :: int where "ARP_RESOLVE_ERROR = - 1"
definition ARP_RESOLVE_FOUND :: int where "ARP_RESOLVE_FOUND = 1"

text \<open>
  Modelled from the spec: \<open>ntoh16\<close>, \<open>hton16\<close> and \<open>ntoh32\<close> live in util.c, which is not among
  the sources. All multi-byte wire fields are big-endian; on a little-endian host the
  conversion is the byte swap below.
\<close>

definition byteswap32 :: "32 word \<Rightarrow> 32 word" where
  "byteswap32 v =
     push_bit 24 (v AND 0x000000ff) OR push_bit 8 (v AND 0x0000ff00)
       OR drop_bit 8 (v AND 0x00ff0000) OR drop_bit 24 (v AND 0xff000000)"

definition ntoh32 :: "32 word \<Rightarrow> 32 word" where
  "ntoh32 n = byteswap32 n"

definition byteswap16 :: "16 word \<Rightarrow> 16 word" where
  "byteswap16 v = push_bit 8 (v AND 0x00ff) OR drop_bit 8 (v AND 0xff00)"

definition ntoh16 :: "16 word \<Rightarrow> 16 word" where
  "ntoh16 n = byteswap16 n"

definition hton16 :: "16 word \<Rightarrow> 16 word" where
  "hton16 h = byteswap16 h"

text \<open>
  Integers in memory, on the same little-endian host: a \<open>uint16_t\<close> or
  \<open>uint32_t\<close> object read from, or written as, its bytes in address order
  (what \<open>memcpy\<close> between a byte array and an integer does, and what a struct field
  is under a cast from \<open>uint8_t *\<close>).
\<close>

definition load16 :: "byte list \<Rightarrow> 16 word" where
  "load16 bs = ucast (bs ! 0) OR push_bit 8 (ucast (bs ! 1))"

definition store16 :: "16 word \<Rightarrow> byte list" where
  "store16 w = [ucast w, ucast (drop_bit 8 w)]"

definition load32 :: "byte list \<Rightarrow> 32 word" where
  "load32 bs =
     ucast (bs ! 0) OR push_bit 8 (ucast (bs ! 1))
       OR push_bit 16 (ucast (bs ! 2)) OR push_bit 24 (ucast (bs ! 3))"

definition store32 :: "32 word \<Rightarrow> byte list" where
  "store32 w = [ucast w, ucast (drop_bit 8 w), ucast (drop_bit 16 w), ucast (drop_bit 24 w)]"

section \<open>Time stamps\<close>

text \<open>\<open>struct timeval\<close> with the macros \<open>timerclear\<close> and \<open>timercmp(a, b, >)\<close>
  of \<open>sys/time.h\<close>.\<close>

record timeval =
  tv_sec :: int
  tv_usec :: int

definition timerclear :: timeval where
  "timerclear = \<lparr>tv_sec = 0, tv_usec = 0\<rparr>"

definition timercmp_gt :: "timeval \<Rightarrow> timeval \<Rightarrow> bool" where
  "timercmp_gt a b =
     (if tv_sec a = tv_sec b then tv_usec a > tv_usec b else tv_sec a > tv_sec b)"

text \<open>The order on time stamps in which "oldest" is read: seconds first, then
  microseconds.\<close>

definition timeval_less :: "timeval \<Rightarrow> timeval \<Rightarrow> bool" where
  "timeval_less a b \<longleftrightarrow>
     tv_sec a < tv_sec b \<or> (tv_sec a = tv_sec b \<and> tv_usec a < tv_usec b)"

section \<open>The ARP cache (arp.c)\<close>

record arp_cache =
  cache_state :: "8 word"
  cache_pa :: ip_addr_t
  cache_ha :: "byte list"
  cache_timestamp :: timeval

text \<open>
  The table \<open>caches\<close> is a C array of \<open>ARP_CACHE_SIZE\<close> entries; it is a list here,
  a pointer into it is an index, \<open>NULL\<close> is \<open>None\<close>, and \<open>tailof(caches)\<close> is the
  index \<open>length caches\<close>. The value read by \<open>gettimeofday\<close> is the parameter \<open>now\<close>.
\<close>

definition arp_cache_delete :: "nat \<Rightarrow> arp_cache list \<Rightarrow> arp_cache list" where
  "arp_cache_delete cache caches =
     caches[cache := (caches ! cache)
       \<lparr>cache_state := ARP_CACHE_STATE_FREE,
        cache_pa := 0,
        cache_ha := replicate ETHER_ADDR_LEN 0,
        cache_timestamp := timerclear\<rparr>]"

text \<open>The \<open>for\<close> loop of \<open>arp_cache_alloc\<close>: \<open>Inl entry\<close> is the early return of a
  FREE entry, \<open>Inr oldest\<close> is the value of \<open>oldest\<close> when the loop runs off the
  table.\<close>

function arp_cache_alloc_loop ::
  "arp_cache list \<Rightarrow> nat \<Rightarrow> nat option \<Rightarrow> nat + nat option" where
  "arp_cache_alloc_loop caches entry oldest =
     (if entry < length caches then
        (if cache_state (caches ! entry) = ARP_CACHE_STATE_FREE then Inl entry
         else arp_cache_alloc_loop caches (Suc entry)
                (case oldest of
                   None \<Rightarrow> Some entry
                 | Some old \<Rightarrow>
                     if timercmp_gt (cache_timestamp (caches ! old))
                                    (cache_timestamp (caches ! entry))
                     then Some entry else oldest))
      else Inr oldest)"
  by pat_completeness auto
termination
  by (relation "measure (\<lambda>(caches, entry, oldest). length caches - entry)") auto

declare arp_cache_alloc_loop.simps [simp del]

text \<open>\<open>arp_cache_delete(oldest)\<close> with \<open>oldest == NULL\<close> dereferences a null
  pointer; the model returns \<open>None\<close> there and leaves the table alone.\<close>

definition arp_cache_alloc :: "arp_cache list \<Rightarrow> nat option \<times> arp_cache list" where
  "arp_cache_alloc caches =
     (case arp_cache_alloc_loop caches 0 None of
        Inl entry \<Rightarrow> (Some entry, caches)
      | Inr None \<Rightarrow> (None, caches)
      | Inr (Some oldest) \<Rightarrow> (Some oldest, arp_cache_delete oldest caches))"

function arp_cache_select_loop :: "ip_addr_t \<Rightarrow> arp_cache list \<Rightarrow> nat \<Rightarrow> nat option" where
  "arp_cache_select_loop pa caches entry =
     (if entry < length caches then
        (if cache_state (caches ! entry) = ARP_CACHE_STATE_FREE
         then arp_cache_select_loop pa caches (Suc entry)
         else if ntoh32 (cache_pa (caches ! entry)) = ntoh32 pa then Some entry
         else arp_cache_select_loop pa caches (Suc entry))
      else None)"
  by pat_completeness auto
termination
  by (relation "measure (\<lambda>(pa, caches, entry). length caches - entry)") auto

declare arp_cache_select_loop.simps [simp del]

definition arp_cache_select :: "ip_addr_t \<Rightarrow> arp_cache list \<Rightarrow> nat option" where
  "arp_cache_select pa caches = arp_cache_select_loop pa caches 0"

definition arp_cache_update ::
  "ip_addr_t \<Rightarrow> byte list \<Rightarrow> timeval \<Rightarrow> arp_cache list \<Rightarrow> nat option \<times> arp_cache list" where
  "arp_cache_update pa ha now caches =
     (case arp_cache_select pa caches of
        None \<Rightarrow> (None, caches)
      | Some cache \<Rightarrow>
          (Some cache,
           caches[cache := (caches ! cache)
             \<lparr>cache_state := ARP_CACHE_STATE_RESOLVED, cache_timestamp := now\<rparr>]))"

definition arp_cache_insert ::
  "ip_addr_t \<Rightarrow> byte list \<Rightarrow> timeval \<Rightarrow> arp_cache list \<Rightarrow> nat option \<times> arp_cache list" where
  "arp_cache_insert pa ha now caches =
     (case arp_cache_alloc caches of
        (None, caches') \<Rightarrow> (None, caches')
      | (Some cache, caches') \<Rightarrow>
          (Some cache,
           caches'[cache := (caches' ! cache)
             \<lparr>cache_state := ARP_CACHE_STATE_RESOLVED,
              cache_pa := pa,
              cache_ha := take ETHER_ADDR_LEN ha,
              cache_timestamp := now\<rparr>]))"


text \<open>Slot \<open>i\<close> is the oldest of the first \<open>n\<close> slots: no slot among them has a
  smaller time stamp, and every slot before \<open>i\<close> has a strictly larger one (the first
  slot in scan order wins ties).\<close>

definition oldest_first :: "arp_cache list \<Rightarrow> nat \<Rightarrow> nat \<Rightarrow> bool" where
  "oldest_first caches n i \<longleftrightarrow>
     i < n
     \<and> (\<forall>j<n. \<not> timeval_less (cache_timestamp (caches ! j)) (cache_timestamp (caches ! i)))
     \<and> (\<forall>j<i. timeval_less (cache_timestamp (caches ! i)) (cache_timestamp (caches ! j)))"

section \<open>Devices and interfaces (net.c)\<close>

text \<open>
  A \<open>struct net_device *\<close> is an address (a \<open>nat\<close>); the device objects live in
  the store \<open>mem_dev\<close>. \<open>dev_transmit\<close> is the return value of the driver's
  \<open>ops->transmit\<close> callback for the arguments it is called with; the call itself is
  recorded in \<open>drv_calls\<close>, one event per call, in call order.
\<close>

record net_iface =
  iface_dev :: nat
  iface_family :: int

record ip_iface = net_iface +
  unicast :: ip_addr_t
  netmask :: ip_addr_t
  broadcast :: ip_addr_t

record net_device =
  dev_type :: "16 word"
  dev_mtu :: "16 word"
  dev_flags :: "16 word"
  dev_addr :: "byte list"
  dev_transmit :: "16 word \<Rightarrow> byte list \<Rightarrow> nat \<Rightarrow> byte list \<Rightarrow> int"
  dev_ifaces :: "ip_iface list"

record drv_call =
  call_dev :: nat
  call_type :: "16 word"
  call_data :: "byte list"
  call_len :: nat
  call_dst :: "byte list"

record world =
  mem_dev :: "nat \<Rightarrow> net_device"
  arp_caches :: "arp_cache list"
  drv_calls :: "drv_call list"

definition NET_DEVICE_IS_UP :: "net_device \<Rightarrow> bool" where
  "NET_DEVICE_IS_UP x \<longleftrightarrow> dev_flags x AND NET_DEVICE_FLAG_UP \<noteq> 0"

definition net_device_output ::
  "nat \<Rightarrow> 16 word \<Rightarrow> byte list \<Rightarrow> nat \<Rightarrow> byte list \<Rightarrow> world \<Rightarrow> int \<times> world" where
  "net_device_output dev type data len dst w =
     (if \<not> NET_DEVICE_IS_UP (mem_dev w dev) then (- 1, w)
      else if len > unat (dev_mtu (mem_dev w dev)) then (- 1, w)
      else
        let ret_ops_transmit = dev_transmit (mem_dev w dev) type data len dst;
            w' = w\<lparr>drv_calls := drv_calls w @
                   [\<lparr>call_dev = dev, call_type = type, call_data = data,
                     call_len = len, call_dst = dst\<rparr>]\<rparr>
        in if ret_ops_transmit = - 1 then (- 1, w') else (0, w'))"

text \<open>
  Modelled from the spec: \<open>net_device_get_iface\<close> is declared in net.h and defined
  nowhere in the sources. An interface is an attachment of a device addressed by its
  address family; the lookup returns the first attached interface of that family, or
  \<open>NULL\<close>.
\<close>

definition net_device_get_iface :: "net_device \<Rightarrow> int \<Rightarrow> ip_iface option" where
  "net_device_get_iface dev family = find (\<lambda>entry. iface_family entry = family) (dev_ifaces dev)"

section \<open>The ARP message (arp.c)\<close>

record arp_hdr =
  hdr_hrd :: "16 word"
  hdr_pro :: "16 word"
  hdr_hln :: byte
  hdr_pln :: byte
  hdr_op :: "16 word"

record arp_ether_ip =
  msg_hdr :: arp_hdr
  msg_sha :: "byte list"
  msg_spa :: "byte list"
  msg_tha :: "byte list"
  msg_tpa :: "byte list"

definition sizeof_arp_ether_ip :: nat where
  "sizeof_arp_ether_ip = 28"

text \<open>The cast \<open>(struct arp_ether_ip *)data\<close>: every field read at its offset.\<close>

definition arp_ether_ip_of_bytes :: "byte list \<Rightarrow> arp_ether_ip" where
  "arp_ether_ip_of_bytes data =
     \<lparr>msg_hdr =
        \<lparr>hdr_hrd = load16 (take 2 data),
         hdr_pro = load16 (take 2 (drop 2 data)),
         hdr_hln = data ! 4,
         hdr_pln = data ! 5,
         hdr_op = load16 (take 2 (drop 6 data))\<rparr>,
      msg_sha = take ETHER_ADDR_LEN (drop 8 data),
      msg_spa = take IP_ADDR_LEN (drop 14 data),
      msg_tha = take ETHER_ADDR_LEN (drop 18 data),
      msg_tpa = take IP_ADDR_LEN (drop 24 data)\<rparr>"

text \<open>The cast \<open>(uint8_t *)&reply\<close>: the bytes of the struct, in address order.\<close>

definition bytes_of_arp_ether_ip :: "arp_ether_ip \<Rightarrow> byte list" where
  "bytes_of_arp_ether_ip m =
     store16 (hdr_hrd (msg_hdr m)) @ store16 (hdr_pro (msg_hdr m))
       @ [hdr_hln (msg_hdr m), hdr_pln (msg_hdr m)] @ store16 (hdr_op (msg_hdr m))
       @ msg_sha m @ msg_spa m @ msg_tha m @ msg_tpa m"

section \<open>The ARP protocol handler (arp.c)\<close>

definition arp_reply ::
  "ip_iface \<Rightarrow> byte list \<Rightarrow> ip_addr_t \<Rightarrow> byte list \<Rightarrow> world \<Rightarrow> int \<times> world" where
  "arp_reply iface tha tpa dst w =
     (let reply =
        \<lparr>msg_hdr =
           \<lparr>hdr_hrd = hton16 ARP_HRD_ETHER,
            hdr_pro = hton16 ARP_PRO_IP,
            hdr_hln = of_nat ETHER_ADDR_LEN,
            hdr_pln = of_nat IP_ADDR_LEN,
            hdr_op = hton16 ARP_OP_REPLY\<rparr>,
         msg_sha = take ETHER_ADDR_LEN (dev_addr (mem_dev w (iface_dev iface))),
         msg_spa = store32 (unicast iface),
         msg_tha = take ETHER_ADDR_LEN tha,
         msg_tpa = store32 tpa\<rparr>
      in net_device_output (iface_dev iface) ETHER_TYPE_ARP
           (bytes_of_arp_ether_ip reply) sizeof_arp_ether_ip dst w)"

text \<open>\<open>arp_input\<close> returns nothing; its effect is the new world. At most one of
  \<open>arp_cache_update\<close> and \<open>arp_cache_insert\<close> reads the clock on any path, so one
  value \<open>now\<close> stands for \<open>gettimeofday\<close>. The calls of \<open>mutex_lock\<close> and
  \<open>mutex_unlock\<close> around the cache operations have no counterpart: the functions
  are run one at a time here. Logging (\<open>debugf\<close>, \<open>errorf\<close>, \<open>arp_dump\<close>) is
  left out throughout.\<close>

definition arp_input :: "byte list \<Rightarrow> nat \<Rightarrow> nat \<Rightarrow> timeval \<Rightarrow> world \<Rightarrow> world" where
  "arp_input data len dev now w =
     (if len < sizeof_arp_ether_ip then w
      else
        let msg = arp_ether_ip_of_bytes data;
            spa = load32 (msg_spa msg);
            tpa = load32 (msg_tpa msg)
        in
          if ntoh16 (hdr_hrd (msg_hdr msg)) \<noteq> ARP_HRD_ETHER
               \<or> hdr_hln (msg_hdr msg) \<noteq> of_nat ETHER_ADDR_LEN then w
          else if ntoh16 (hdr_pro (msg_hdr msg)) \<noteq> ARP_PRO_IP
               \<or> hdr_pln (msg_hdr msg) \<noteq> of_nat IP_ADDR_LEN then w
          else
            let updated = arp_cache_update spa (msg_sha msg) now (arp_caches w);
                merge = (fst updated \<noteq> None);
                w1 = w\<lparr>arp_caches := snd updated\<rparr>
            in
              case net_device_get_iface (mem_dev w1 dev) NET_IFACE_FAMILY_IP of
                None \<Rightarrow> w1
              | Some iface \<Rightarrow>
                  if unicast iface = tpa then
                    let w2 = (if \<not> merge
                              then w1\<lparr>arp_caches :=
                                     snd (arp_cache_insert spa (msg_sha msg) now (arp_caches w1))\<rparr>
                              else w1)
                    in if ntoh16 (hdr_op (msg_hdr msg)) = ARP_OP_REQUEST
                       then snd (arp_reply iface (msg_sha msg) spa (msg_sha msg) w2)
                       else w2
                  else w1)"

text \<open>\<open>arp_resolve\<close> returns its status, the caller's buffer \<open>ha\<close> and the world
  (which no branch changes). \<open>memcpy(ha, cache->ha, ETHER_ADDR_LEN)\<close> overwrites the
  first \<open>ETHER_ADDR_LEN\<close> bytes of the buffer.\<close>

definition arp_resolve ::
  "'a net_iface_scheme \<Rightarrow> ip_addr_t \<Rightarrow> byte list \<Rightarrow> world \<Rightarrow> int \<times> byte list \<times> world" where
  "arp_resolve iface pa ha w =
     (if dev_type (mem_dev w (iface_dev iface)) \<noteq> NET_DEVICE_TYPE_ETHERNET
      then (ARP_RESOLVE_ERROR, ha, w)
      else if iface_family iface \<noteq> NET_IFACE_FAMILY_IP
      then (ARP_RESOLVE_ERROR, ha, w)
      else
        case arp_cache_select pa (arp_caches w) of
          None \<Rightarrow> (ARP_RESOLVE_ERROR, ha, w)
        | Some cache \<Rightarrow>
            (ARP_RESOLVE_FOUND,
             take ETHER_ADDR_LEN (cache_ha (arp_caches w ! cache)) @ drop ETHER_ADDR_LEN ha,
             w))"

section \<open>The protocol registry and the dispatcher (net.c)\<close>

text \<open>
  A \<open>struct net_protocol *\<close> is an address, \<open>NULL\<close> is address 0, and the protocol
  records live in the store \<open>proto_mem\<close>; the static variable \<open>protocols\<close> is the
  head pointer. A handler is named by a number (its function pointer); calling it is
  recorded in \<open>handled\<close> with the arguments passed, in call order. \<open>irqs\<close> counts the
  calls of \<open>intr_raise_irq(SIGUSR1)\<close>.
\<close>

definition NULL :: nat where "NULL = 0"

record net_protocol_queue_entry =
  entry_dev :: nat
  entry_len :: nat
  entry_data :: "byte list"

record net_protocol =
  proto_next :: nat
  proto_type :: "16 word"
  proto_queue :: "net_protocol_queue_entry list"
  proto_handler :: nat

record handler_call =
  hcall_handler :: nat
  hcall_data :: "byte list"
  hcall_len :: nat
  hcall_dev :: nat

record net_state =
  protocols :: nat
  proto_mem :: "nat \<Rightarrow> net_protocol"
  handled :: "handler_call list"
  irqs :: nat

text \<open>
  Modelled from the spec: \<open>queue_push\<close> and \<open>queue_pop\<close> live in util.c, which is
  not among the sources. The queue is a FIFO of opaque entries: push adds at the tail,
  pop removes the head and returns \<open>NULL\<close> (here \<open>None\<close>) on the empty queue.
\<close>

definition queue_push :: "'a list \<Rightarrow> 'a \<Rightarrow> 'a list" where
  "queue_push queue entry = queue @ [entry]"

definition queue_pop :: "'a list \<Rightarrow> 'a option \<times> 'a list" where
  "queue_pop queue = (case queue of [] \<Rightarrow> (None, []) | entry # rest \<Rightarrow> (Some entry, rest))"

text \<open>The duplicate check of \<open>net_protocol_register\<close>: \<open>Some True\<close> is the early
  return on a match, \<open>Some False\<close> is the loop running off the list, \<open>None\<close> is a
  loop that never ends.\<close>

partial_function (option) net_protocol_register_loop ::
  "(nat \<Rightarrow> net_protocol) \<Rightarrow> 16 word \<Rightarrow> nat \<Rightarrow> bool option" where
  "net_protocol_register_loop mem type proto =
     (if proto = NULL then Some False
      else if type = proto_type (mem proto) then Some True
      else net_protocol_register_loop mem type (proto_next (mem proto)))"

text \<open>
  Modelled from the spec: \<open>memory_alloc\<close> is declared in platform.h, which is not
  among the sources; it returns zeroed memory or \<open>NULL\<close>. Its result is the parameter
  \<open>alloc\<close>; a zeroed \<open>struct net_protocol\<close> has an empty queue.
\<close>

definition net_protocol_register ::
  "16 word \<Rightarrow> nat \<Rightarrow> nat \<Rightarrow> net_state \<Rightarrow> (int \<times> net_state) option" where
  "net_protocol_register type handler alloc s =
     (case net_protocol_register_loop (proto_mem s) type (protocols s) of
        None \<Rightarrow> None
      | Some True \<Rightarrow> Some (- 1, s)
      | Some False \<Rightarrow>
          let proto = alloc in
          if proto = NULL then Some (- 1, s)
          else Some (0,
            s\<lparr>proto_mem := (proto_mem s)
                 (proto := \<lparr>proto_next = proto, proto_type = type,
                            proto_queue = [], proto_handler = handler\<rparr>),
              protocols := proto\<rparr>))"

text \<open>The loop of \<open>net_input_handler\<close>. \<open>alloc_ok\<close> says whether
  \<open>memory_alloc\<close> for the entry succeeds. The entry is pushed onto
  \<open>protocols->queue\<close>, as the source has it.\<close>

partial_function (option) net_input_handler_loop ::
  "16 word \<Rightarrow> byte list \<Rightarrow> nat \<Rightarrow> nat \<Rightarrow> bool \<Rightarrow> net_state \<Rightarrow> nat \<Rightarrow> (int \<times> net_state) option" where
  "net_input_handler_loop type data len dev alloc_ok s proto =
     (if proto = NULL then Some (0, s)
      else if proto_type (proto_mem s proto) = type then
        (if \<not> alloc_ok then Some (- 1, s)
         else
           let entry = \<lparr>entry_dev = dev, entry_len = len, entry_data = take len data\<rparr>;
               head = protocols s
           in Some (0,
                s\<lparr>proto_mem := (proto_mem s)
                     (head := (proto_mem s head)
                        \<lparr>proto_queue := queue_push (proto_queue (proto_mem s head)) entry\<rparr>),
                  irqs := Suc (irqs s)\<rparr>))
      else net_input_handler_loop type data len dev alloc_ok s (proto_next (proto_mem s proto)))"

definition net_input_handler ::
  "16 word \<Rightarrow> byte list \<Rightarrow> nat \<Rightarrow> nat \<Rightarrow> bool \<Rightarrow> net_state \<Rightarrow> (int \<times> net_state) option" where
  "net_input_handler type data len dev alloc_ok s =
     net_input_handler_loop type data len dev alloc_ok s (protocols s)"

text \<open>The inner \<open>while (1)\<close> loop of \<open>net_softirq_handler\<close> for one protocol: pop,
  call the handler, free, until the queue is empty.\<close>

function net_softirq_handler_drain :: "nat \<Rightarrow> net_state \<Rightarrow> net_state" where
  "net_softirq_handler_drain proto s =
     (case queue_pop (proto_queue (proto_mem s proto)) of
        (None, rest) \<Rightarrow> s
      | (Some entry, rest) \<Rightarrow>
          net_softirq_handler_drain proto
            (s\<lparr>proto_mem := (proto_mem s)
                  (proto := (proto_mem s proto)\<lparr>proto_queue := rest\<rparr>),
               handled := handled s @
                 [\<lparr>hcall_handler = proto_handler (proto_mem s proto),
                   hcall_data = entry_data entry,
                   hcall_len = entry_len entry,
                   hcall_dev = entry_dev entry\<rparr>]\<rparr>))"
  by pat_completeness auto
termination
  by (relation "measure (\<lambda>(proto, s). length (proto_queue (proto_mem s proto)))")
     (auto simp: queue_pop_def split: list.splits)

declare net_softirq_handler_drain.simps [simp del]

partial_function (option) net_softirq_handler_loop ::
  "nat \<Rightarrow> net_state \<Rightarrow> (int \<times> net_state) option" where
  "net_softirq_handler_loop proto s =
     (if proto = NULL then Some (0, s)
      else
        let s' = net_softirq_handler_drain proto s
        in net_softirq_handler_loop (proto_next (proto_mem s' proto)) s')"

definition net_softirq_handler :: "net_state \<Rightarrow> (int \<times> net_state) option" where
  "net_softirq_handler s = net_softirq_handler_loop (protocols s) s"

text \<open>The registry before any registration: \<open>protocols\<close> is a static pointer, so
  \<open>NULL\<close>.\<close>

definition net_state_init :: "(nat \<Rightarrow> net_protocol) \<Rightarrow> net_state" where
  "net_state_init mem = \<lparr>protocols = NULL, proto_mem = mem, handled = [], irqs = 0\<rparr>"

text \<open>Concrete cache tables used to exercise the theorems: a full table whose slots 7
  and 9 share the smallest time stamp, the same table with slots 3 and 20 deleted, and a
  three-slot table with a FREE slot that still carries an address.\<close>

definition example_entry :: "nat \<Rightarrow> arp_cache" where
  "example_entry i =
     \<lparr>cache_state = ARP_CACHE_STATE_RESOLVED,
      cache_pa = of_nat (Suc i),
      cache_ha = replicate ETHER_ADDR_LEN (of_nat i),
      cache_timestamp = \<lparr>tv_sec = (if i = 7 \<or> i = 9 then 50 else 100), tv_usec = int i mod 2\<rparr>\<rparr>"

definition example_caches_full :: "arp_cache list" where
  "example_caches_full = map example_entry [0..<ARP_CACHE_SIZE]"

definition example_caches_free :: "arp_cache list" where
  "example_caches_free =
     (arp_cache_delete 3 (arp_cache_delete 20 example_caches_full))"

definition example_caches_small :: "arp_cache list" where
  "example_caches_small =
     [\<lparr>cache_state = ARP_CACHE_STATE_FREE, cache_pa = 0x0100000a,
       cache_ha = replicate ETHER_ADDR_LEN 0, cache_timestamp = timerclear\<rparr>,
      \<lparr>cache_state = ARP_CACHE_STATE_RESOLVED, cache_pa = 0x0100000a,
       cache_ha = [0xaa, 0xaa, 0xaa, 0xaa, 0xaa, 0xaa],
       cache_timestamp = \<lparr>tv_sec = 10, tv_usec = 0\<rparr>\<rparr>,
      \<lparr>cache_state = ARP_CACHE_STATE_INCOMPLETE, cache_pa = 0x0200000a,
       cache_ha = [0xbb, 0xbb, 0xbb, 0xbb, 0xbb, 0xbb],
       cache_timestamp = \<lparr>tv_sec = 20, tv_usec = 0\<rparr>\<rparr>]"

text \<open>A concrete world: device 1 is an Ethernet device that is up, with MTU 1500,
  hardware address 02:00:00:00:00:01 and one IP interface owning 10.0.0.2; every other
  address holds a loopback-like device (type 0x0001) that is down and has no interface.
  The driver of device 1 reports success.\<close>

definition example_iface :: ip_iface where
  "example_iface =
     \<lparr>iface_dev = 1, iface_family = NET_IFACE_FAMILY_IP,
      unicast = 0x0200000a, netmask = 0x00ffffff, broadcast = 0xff00000a\<rparr>"

definition example_ether_dev :: net_device where
  "example_ether_dev =
     \<lparr>dev_type = NET_DEVICE_TYPE_ETHERNET, dev_mtu = 1500, dev_flags = NET_DEVICE_FLAG_UP,
      dev_addr = [0x02, 0, 0, 0, 0, 0x01, 0, 0, 0, 0, 0, 0, 0, 0, 0, 0],
      dev_transmit = (\<lambda>type data len dst. 0),
      dev_ifaces = [example_iface]\<rparr>"

definition example_other_dev :: net_device where
  "example_other_dev =
     \<lparr>dev_type = 0x0001, dev_mtu = 65535, dev_flags = 0,
      dev_addr = replicate 16 0,
      dev_transmit = (\<lambda>type data len dst. - 1),
      dev_ifaces = []\<rparr>"

definition example_world :: world where
  "example_world =
     \<lparr>mem_dev = (\<lambda>dev. example_other_dev)(1 := example_ether_dev),
      arp_caches = example_caches_small,
      drv_calls = []\<rparr>"

text \<open>The ARP-over-Ethernet/IPv4 message with opcode \<open>op\<close> and the four address
  fields given, header fields in network byte order: what \<open>arp_reply\<close> builds, and what
  \<open>arp_input\<close> accepts.\<close>

definition arp_message ::
  "16 word \<Rightarrow> byte list \<Rightarrow> byte list \<Rightarrow> byte list \<Rightarrow> byte list \<Rightarrow> arp_ether_ip" where
  "arp_message op sha spa tha tpa =
     \<lparr>msg_hdr =
        \<lparr>hdr_hrd = hton16 ARP_HRD_ETHER,
         hdr_pro = hton16 ARP_PRO_IP,
         hdr_hln = of_nat ETHER_ADDR_LEN,
         hdr_pln = of_nat IP_ADDR_LEN,
         hdr_op = hton16 op\<rparr>,
      msg_sha = sha, msg_spa = spa, msg_tha = tha, msg_tpa = tpa\<rparr>"

text \<open>The request of the round-trip example: 10.0.0.1 at aa:aa:aa:aa:aa:aa asks for
  10.0.0.2.\<close>

definition example_request :: "byte list" where
  "example_request =
     bytes_of_arp_ether_ip
       (arp_message ARP_OP_REQUEST [0xaa, 0xaa, 0xaa, 0xaa, 0xaa, 0xaa] [10, 0, 0, 1]
          [0, 0, 0, 0, 0, 0] (store32 (unicast example_iface)))"

text \<open>A device delivering frames one after another, memory being available: each
  element is one call \<open>net_input_handler(type, data, len, dev)\<close>; \<open>None\<close> when one of
  the calls does not return.\<close>

fun net_input_frames ::
  "(16 word \<times> byte list \<times> nat \<times> nat) list \<Rightarrow> net_state \<Rightarrow> net_state option" where
  "net_input_frames [] s = Some s"
| "net_input_frames ((type, data, len, dev) # frames) s =
     (case net_input_handler type data len dev True s of
        None \<Rightarrow> None
      | Some (ret, s') \<Rightarrow> net_input_frames frames s')"

text \<open>Concrete registries. \<open>example_mem\<close> is zeroed memory.
  \<open>example_registered\<close> is the registry after the first registration (type IP, handler
  10, record allocated at address 1).\<close>

definition example_mem :: "nat \<Rightarrow> net_protocol" where
  "example_mem = (\<lambda>proto. \<lparr>proto_next = NULL, proto_type = 0, proto_queue = [],
                           proto_handler = 0\<rparr>)"

definition example_registered :: net_state where
  "example_registered =
     \<lparr>protocols = 1,
      proto_mem = example_mem
        (1 := \<lparr>proto_next = 1, proto_type = ETHER_TYPE_IP, proto_queue = [],
               proto_handler = 10\<rparr>),
      handled = [], irqs = 0\<rparr>"

text \<open>The registry as one successful \<open>net_protocol_register(type, handler)\<close> leaves
  it and as later calls of \<open>net_input_handler\<close> keep it: the head pointer is the record
  \<open>proto\<close> of that registration, and the record's \<open>next\<close> is the record itself.\<close>

definition registered_head :: "16 word \<Rightarrow> nat \<Rightarrow> nat \<Rightarrow> net_state \<Rightarrow> bool" where
  "registered_head type handler proto s \<longleftrightarrow>
     proto \<noteq> NULL \<and> protocols s = proto
     \<and> proto_next (proto_mem s proto) = proto
     \<and> proto_type (proto_mem s proto) = type
     \<and> proto_handler (proto_mem s proto) = handler"

text \<open>The queue entry \<open>net_input_handler\<close> builds for one frame.\<close>

definition entry_of_frame :: "16 word \<times> byte list \<times> nat \<times> nat \<Rightarrow> net_protocol_queue_entry" where
  "entry_of_frame frame =
     (case frame of (type, data, len, dev) \<Rightarrow>
        \<lparr>entry_dev = dev, entry_len = len, entry_data = take len data\<rparr>)"

text \<open>\<open>example_registered\<close> after one IP frame was delivered.\<close>

definition example_queued :: net_state where
  "example_queued =
     example_registered
       \<lparr>proto_mem := (proto_mem example_registered)
          (1 := (proto_mem example_registered 1)
             \<lparr>proto_queue := [\<lparr>entry_dev = 7, entry_len = 3, entry_data = [1, 2, 3]\<rparr>]\<rparr>),
        irqs := 1\<rparr>"

text \<open>The registry as a \<open>NULL\<close>-terminated list: \<open>proto_list mem proto ps\<close> says
  that following \<open>next\<close> from \<open>proto\<close> visits exactly the records \<open>ps\<close>, in that
  order, and then reaches \<open>NULL\<close>.\<close>

fun proto_list :: "(nat \<Rightarrow> net_protocol) \<Rightarrow> nat \<Rightarrow> nat list \<Rightarrow> bool" where
  "proto_list mem proto [] \<longleftrightarrow> proto = NULL"
| "proto_list mem proto (p # ps) \<longleftrightarrow>
     proto = p \<and> p \<noteq> NULL \<and> proto_list mem (proto_next (mem p)) ps"

text \<open>The \<open>for\<close> loop of \<open>net_softirq_handler\<close> watched from outside: the loop
  variable \<open>proto\<close> and the state after at most \<open>n\<close> rounds of the loop body (drain the
  queue of \<open>proto\<close>, move to \<open>proto->next\<close>). Once \<open>proto\<close> is \<open>NULL\<close> the loop has
  ended and further rounds change nothing. It has the body of
  \<open>net_softirq_handler_loop\<close> and says what a run has done so far even when the run
  never ends.\<close>

fun net_softirq_handler_iter :: "nat \<Rightarrow> nat \<Rightarrow> net_state \<Rightarrow> nat \<times> net_state" where
  "net_softirq_handler_iter 0 proto s = (proto, s)"
| "net_softirq_handler_iter (Suc n) proto s =
     (if proto = NULL then (proto, s)
      else
        let s' = net_softirq_handler_drain proto s
        in net_softirq_handler_iter n (proto_next (proto_mem s' proto)) s')"


text \<open>The registries the program can be in: \<open>protocols\<close> is \<open>NULL\<close>, or it is a
  record whose \<open>next\<close> is the record itself.\<close>

definition registry_single :: "net_state \<Rightarrow> bool" where
  "registry_single s \<longleftrightarrow>
     protocols s = NULL \<or> proto_next (proto_mem s (protocols s)) = protocols s"


section \<open>Byte order and time stamps\<close>

lemma byte_masks:
  "(0xff::32 word) = mask 8"
  "(0xff00::32 word) = push_bit 8 (mask 8)"
  "(0xff0000::32 word) = push_bit 16 (mask 8)"
  "(0xff000000::32 word) = push_bit 24 (mask 8)"
  by (simp_all add: mask_eq_exp_minus_1)

lemma byte_ranges:
  fixes n :: nat
  obtains "n < 8" | "8 \<le> n" "n < 16" | "16 \<le> n" "n < 24" | "24 \<le> n" "n < 32" | "32 \<le> n"
  by linarith

lemma bit_byteswap32:
  "bit (byteswap32 v) n \<longleftrightarrow>
     (n < 8 \<and> bit v (n + 24)) \<or> (8 \<le> n \<and> n < 16 \<and> bit v (n + 8))
     \<or> (16 \<le> n \<and> n < 24 \<and> bit v (n - 8)) \<or> (24 \<le> n \<and> n < 32 \<and> bit v (n - 24))"
  unfolding byteswap32_def byte_masks
  apply (simp add: bit_simps)
  apply (cases n rule: byte_ranges)
  apply (simp_all add: add.commute)
  apply linarith+
  done

lemma byteswap32_involution: "byteswap32 (byteswap32 v) = v"
proof (rule bit_word_eqI)
  fix n assume "n < LENGTH(32)"
  then have n: "n < 32" by simp
  show "bit (byteswap32 (byteswap32 v)) n = bit v n"
  proof (cases n rule: byte_ranges)
    case 1 then show ?thesis by (simp add: bit_byteswap32)
  next
    case 2 then show ?thesis by (simp add: bit_byteswap32)
  next
    case 3
    then have "n - 8 + 8 = n" "8 \<le> n - 8" "n - 8 < 16" by simp_all
    then show ?thesis using 3 by (simp add: bit_byteswap32)
  next
    case 4
    then have "n - 24 + 24 = n" "n - 24 < 8" by simp_all
    then show ?thesis using 4 by (simp add: bit_byteswap32)
  next
    case 5 then show ?thesis using n by simp
  qed
qed

lemma ntoh32_eq_iff: "ntoh32 a = ntoh32 b \<longleftrightarrow> a = b"
  unfolding ntoh32_def by (metis byteswap32_involution)

lemma timercmp_gt_less: "timercmp_gt a b \<longleftrightarrow> timeval_less b a"
  by (auto simp: timercmp_gt_def timeval_less_def)

lemma timeval_less_irrefl: "\<not> timeval_less a a"
  by (simp add: timeval_less_def)

lemma timeval_less_trans: "timeval_less a b \<Longrightarrow> timeval_less b c \<Longrightarrow> timeval_less a c"
  by (auto simp: timeval_less_def)

lemma timeval_not_less_trans:
  "\<not> timeval_less b a \<Longrightarrow> \<not> timeval_less c b \<Longrightarrow> \<not> timeval_less c a"
  by (auto simp: timeval_less_def)

lemma timeval_less_not_less_trans:
  "timeval_less a b \<Longrightarrow> \<not> timeval_less c b \<Longrightarrow> timeval_less a c"
  by (auto simp: timeval_less_def)

section \<open>The cache scans\<close>

lemma all_from_Suc:
  "P i \<Longrightarrow> (\<forall>j. i \<le> j \<and> j < n \<longrightarrow> P j) \<longleftrightarrow> (\<forall>j. Suc i \<le> j \<and> j < n \<longrightarrow> P j)"
  by (metis Suc_leD Suc_leI le_neq_implies_less)

lemma select_loop_None:
  "arp_cache_select_loop pa caches i = None \<longleftrightarrow>
     (\<forall>j. i \<le> j \<and> j < length caches \<longrightarrow>
        cache_state (caches ! j) = ARP_CACHE_STATE_FREE \<or> cache_pa (caches ! j) \<noteq> pa)"
proof (induction pa caches i rule: arp_cache_select_loop.induct)
  case (1 pa caches entry)
  let ?P = "\<lambda>j. cache_state (caches ! j) = ARP_CACHE_STATE_FREE \<or> cache_pa (caches ! j) \<noteq> pa"
  show ?case
  proof (cases "entry < length caches")
    case False
    then show ?thesis by (subst arp_cache_select_loop.simps) auto
  next
    case True
    note lt = this
    show ?thesis
    proof (cases "cache_state (caches ! entry) = ARP_CACHE_STATE_FREE")
      case True
      then have "?P entry" by simp
      from all_from_Suc[of ?P, OF this] 1(1)[OF lt True] lt True show ?thesis
        by (subst arp_cache_select_loop.simps) simp
    next
      case False
      note nf = this
      show ?thesis
      proof (cases "cache_pa (caches ! entry) = pa")
        case True
        with lt nf show ?thesis
          by (subst arp_cache_select_loop.simps) auto
      next
        case False
        then have ne: "ntoh32 (cache_pa (caches ! entry)) \<noteq> ntoh32 pa"
          by (simp add: ntoh32_eq_iff)
        from False have "?P entry" by simp
        from all_from_Suc[of ?P, OF this] 1(2)[OF lt nf ne] lt nf ne show ?thesis
          by (subst arp_cache_select_loop.simps) simp
      qed
    qed
  qed
qed

lemma select_loop_Some:
  "arp_cache_select_loop pa caches i = Some k \<Longrightarrow>
     i \<le> k \<and> k < length caches \<and> cache_state (caches ! k) \<noteq> ARP_CACHE_STATE_FREE
       \<and> cache_pa (caches ! k) = pa
       \<and> (\<forall>j. i \<le> j \<and> j < k \<longrightarrow>
            cache_state (caches ! j) = ARP_CACHE_STATE_FREE \<or> cache_pa (caches ! j) \<noteq> pa)"
proof (induction pa caches i rule: arp_cache_select_loop.induct)
  case (1 pa caches entry)
  from "1.prems" have lt: "entry < length caches"
    by (subst (asm) arp_cache_select_loop.simps) (simp split: if_splits)
  show ?case
  proof (cases "cache_state (caches ! entry) = ARP_CACHE_STATE_FREE")
    case True
    with lt "1.prems" have "arp_cache_select_loop pa caches (Suc entry) = Some k"
      by (subst (asm) arp_cache_select_loop.simps) simp
    from "1.IH"(1)[OF lt True this] True show ?thesis
      by (auto simp: Suc_le_eq dest: le_neq_implies_less)
  next
    case False
    note nf = this
    show ?thesis
    proof (cases "cache_pa (caches ! entry) = pa")
      case True
      with lt nf "1.prems" have "k = entry"
        by (subst (asm) arp_cache_select_loop.simps) simp
      with lt nf True show ?thesis by auto
    next
      case False
      then have ne: "ntoh32 (cache_pa (caches ! entry)) \<noteq> ntoh32 pa"
        by (simp add: ntoh32_eq_iff)
      with lt nf "1.prems" have "arp_cache_select_loop pa caches (Suc entry) = Some k"
        by (subst (asm) arp_cache_select_loop.simps) simp
      from "1.IH"(2)[OF lt nf ne this] False show ?thesis
        by (auto simp: Suc_le_eq dest: le_neq_implies_less)
    qed
  qed
qed

lemma oldest_first_start: "oldest_first caches (Suc 0) 0"
  by (simp add: oldest_first_def timeval_less_irrefl)

lemma oldest_first_replace:
  assumes "oldest_first caches i old"
    and "timeval_less (cache_timestamp (caches ! i)) (cache_timestamp (caches ! old))"
  shows "oldest_first caches (Suc i) i"
  unfolding oldest_first_def
proof (intro conjI allI impI)
  show "i < Suc i" by simp
next
  fix j assume "j < Suc i"
  then consider "j < i" | "j = i" by linarith
  then show "\<not> timeval_less (cache_timestamp (caches ! j)) (cache_timestamp (caches ! i))"
  proof cases
    case 1
    with assms(1) have "\<not> timeval_less (cache_timestamp (caches ! j)) (cache_timestamp (caches ! old))"
      by (simp add: oldest_first_def)
    with assms(2) show ?thesis
      using timeval_less_trans by blast
  next
    case 2
    then show ?thesis by (simp add: timeval_less_irrefl)
  qed
next
  fix j assume "j < i"
  with assms(1) have "\<not> timeval_less (cache_timestamp (caches ! j)) (cache_timestamp (caches ! old))"
    by (simp add: oldest_first_def)
  with assms(2) show "timeval_less (cache_timestamp (caches ! i)) (cache_timestamp (caches ! j))"
    using timeval_less_not_less_trans by blast
qed

lemma oldest_first_keep:
  assumes "oldest_first caches i old"
    and "\<not> timeval_less (cache_timestamp (caches ! i)) (cache_timestamp (caches ! old))"
  shows "oldest_first caches (Suc i) old"
  using assms by (auto simp: oldest_first_def less_Suc_eq)

lemma alloc_loop_Inl:
  "arp_cache_alloc_loop caches i oldest = Inl k \<Longrightarrow>
     i \<le> k \<and> k < length caches \<and> cache_state (caches ! k) = ARP_CACHE_STATE_FREE
       \<and> (\<forall>j. i \<le> j \<and> j < k \<longrightarrow> cache_state (caches ! j) \<noteq> ARP_CACHE_STATE_FREE)"
proof (induction caches i oldest rule: arp_cache_alloc_loop.induct)
  case (1 caches entry oldest)
  from "1.prems" have lt: "entry < length caches"
    by (subst (asm) arp_cache_alloc_loop.simps) (simp split: if_splits)
  show ?case
  proof (cases "cache_state (caches ! entry) = ARP_CACHE_STATE_FREE")
    case True
    with lt "1.prems" have "k = entry"
      by (subst (asm) arp_cache_alloc_loop.simps) simp
    with lt True show ?thesis by auto
  next
    case False
    with lt "1.prems" obtain oldest' where
      "arp_cache_alloc_loop caches (Suc entry) oldest' = Inl k"
      and "oldest' = (case oldest of None \<Rightarrow> Some entry
            | Some old \<Rightarrow> if timercmp_gt (cache_timestamp (caches ! old))
                 (cache_timestamp (caches ! entry)) then Some entry else oldest)"
      by (subst (asm) arp_cache_alloc_loop.simps) simp
    with "1.IH"[OF lt False] have
      "Suc entry \<le> k \<and> k < length caches \<and> cache_state (caches ! k) = ARP_CACHE_STATE_FREE
        \<and> (\<forall>j. Suc entry \<le> j \<and> j < k \<longrightarrow> cache_state (caches ! j) \<noteq> ARP_CACHE_STATE_FREE)"
      by simp
    with False show ?thesis
      by (auto simp: Suc_le_eq dest: le_neq_implies_less)
  qed
qed

lemma alloc_loop_Inr:
  "arp_cache_alloc_loop caches i oldest = Inr r \<Longrightarrow> i \<le> length caches \<Longrightarrow>
   (case oldest of None \<Rightarrow> i = 0 | Some old \<Rightarrow> oldest_first caches i old) \<Longrightarrow>
     (\<forall>j. i \<le> j \<and> j < length caches \<longrightarrow> cache_state (caches ! j) \<noteq> ARP_CACHE_STATE_FREE)
     \<and> (case r of None \<Rightarrow> length caches = 0 | Some old \<Rightarrow> oldest_first caches (length caches) old)"
proof (induction caches i oldest rule: arp_cache_alloc_loop.induct)
  case (1 caches entry oldest)
  show ?case
  proof (cases "entry < length caches")
    case False
    with "1.prems"(1) have "r = oldest"
      by (subst (asm) arp_cache_alloc_loop.simps) simp
    moreover from False "1.prems"(2) have "entry = length caches" by simp
    ultimately show ?thesis using "1.prems"(3) by (auto split: option.splits)
  next
    case True
    note lt = this
    from lt "1.prems"(1) have nf: "cache_state (caches ! entry) \<noteq> ARP_CACHE_STATE_FREE"
      by (subst (asm) arp_cache_alloc_loop.simps) (auto split: if_splits)
    define oldest' where "oldest' = (case oldest of None \<Rightarrow> Some entry
            | Some old \<Rightarrow> if timercmp_gt (cache_timestamp (caches ! old))
                 (cache_timestamp (caches ! entry)) then Some entry else oldest)"
    from lt nf "1.prems"(1) have rec: "arp_cache_alloc_loop caches (Suc entry) oldest' = Inr r"
      unfolding oldest'_def by (subst (asm) arp_cache_alloc_loop.simps) simp
    have inv: "case oldest' of None \<Rightarrow> Suc entry = 0 | Some old \<Rightarrow> oldest_first caches (Suc entry) old"
    proof (cases oldest)
      case None
      with "1.prems"(3) show ?thesis
        by (simp add: oldest'_def oldest_first_start)
    next
      case (Some old)
      with "1.prems"(3) have "oldest_first caches entry old" by simp
      then show ?thesis
        using Some oldest_first_replace[of caches entry old] oldest_first_keep[of caches entry old]
        by (simp add: oldest'_def timercmp_gt_less)
    qed
    from lt have "Suc entry \<le> length caches" by simp
    from "1.IH"[OF lt nf rec[unfolded oldest'_def] this inv[unfolded oldest'_def]] nf
    show ?thesis
      by (auto simp: Suc_le_eq dest: le_neq_implies_less)
  qed
qed

lemma alloc_free:
  assumes "\<exists>j<length caches. cache_state (caches ! j) = ARP_CACHE_STATE_FREE"
  shows "\<exists>i<length caches. cache_state (caches ! i) = ARP_CACHE_STATE_FREE
           \<and> (\<forall>j<i. cache_state (caches ! j) \<noteq> ARP_CACHE_STATE_FREE)
           \<and> arp_cache_alloc caches = (Some i, caches)"
proof (cases "arp_cache_alloc_loop caches 0 None")
  case (Inl k)
  from alloc_loop_Inl[OF Inl] Inl show ?thesis
    by (auto simp: arp_cache_alloc_def)
next
  case (Inr r)
  from alloc_loop_Inr[OF Inr] assms show ?thesis by auto
qed

lemma alloc_full:
  assumes "caches \<noteq> []"
    and "\<forall>j<length caches. cache_state (caches ! j) \<noteq> ARP_CACHE_STATE_FREE"
  shows "\<exists>i. oldest_first caches (length caches) i
           \<and> arp_cache_alloc caches = (Some i, arp_cache_delete i caches)"
proof (cases "arp_cache_alloc_loop caches 0 None")
  case (Inl k)
  from alloc_loop_Inl[OF Inl] assms(2) show ?thesis by auto
next
  case (Inr r)
  from alloc_loop_Inr[OF Inr] assms(1) obtain old where
    "r = Some old" "oldest_first caches (length caches) old"
    by (cases r) auto
  with Inr show ?thesis by (auto simp: arp_cache_alloc_def)
qed

lemma arp_cache_entry_overwrite:
  "(c :: arp_cache)\<lparr>cache_state := a, cache_pa := b, cache_ha := h, cache_timestamp := t\<rparr>
     = \<lparr>cache_state = a, cache_pa = b, cache_ha = h, cache_timestamp = t\<rparr>"
  by simp

section \<open>Claims on the ARP cache\<close>

text \<open>
  Claim C4. When all 32 slots are non-FREE, \<open>arp_cache_insert\<close> takes the slot that
  \<open>arp_cache_alloc\<close> evicts: the oldest one, the first slot in scan order among those
  with the smallest time stamp. \<open>arp_cache_alloc\<close> hands it back zeroed (state FREE,
  address fields 0, time stamp cleared) and the insert fills it with state RESOLVED, the new
  protocol address, the new hardware address and the time stamp \<open>now\<close>; all other
  slots stay as they were. When some slot is FREE, the first FREE slot in scan order is
  used, \<open>arp_cache_alloc\<close> changes nothing (no entry is evicted), and the insert fills
  that slot in the same way.
\<close>

theorem arp_cache_insert_slot:
  assumes "length caches = ARP_CACHE_SIZE"
  shows
    "((\<forall>j<ARP_CACHE_SIZE. cache_state (caches ! j) \<noteq> ARP_CACHE_STATE_FREE) \<longrightarrow>
        (\<exists>i. oldest_first caches ARP_CACHE_SIZE i
           \<and> arp_cache_alloc caches =
                (Some i, caches[i := \<lparr>cache_state = ARP_CACHE_STATE_FREE, cache_pa = 0,
                                      cache_ha = replicate ETHER_ADDR_LEN 0,
                                      cache_timestamp = timerclear\<rparr>])
           \<and> arp_cache_insert pa ha now caches =
                (Some i, caches[i := \<lparr>cache_state = ARP_CACHE_STATE_RESOLVED, cache_pa = pa,
                                      cache_ha = take ETHER_ADDR_LEN ha,
                                      cache_timestamp = now\<rparr>])))
     \<and> ((\<exists>j<ARP_CACHE_SIZE. cache_state (caches ! j) = ARP_CACHE_STATE_FREE) \<longrightarrow>
        (\<exists>i<ARP_CACHE_SIZE. cache_state (caches ! i) = ARP_CACHE_STATE_FREE
           \<and> (\<forall>j<i. cache_state (caches ! j) \<noteq> ARP_CACHE_STATE_FREE)
           \<and> arp_cache_alloc caches = (Some i, caches)
           \<and> arp_cache_insert pa ha now caches =
                (Some i, caches[i := \<lparr>cache_state = ARP_CACHE_STATE_RESOLVED, cache_pa = pa,
                                      cache_ha = take ETHER_ADDR_LEN ha,
                                      cache_timestamp = now\<rparr>])))"
proof (intro conjI impI)
  assume full: "\<forall>j<ARP_CACHE_SIZE. cache_state (caches ! j) \<noteq> ARP_CACHE_STATE_FREE"
  from assms have ne: "caches \<noteq> []" by (auto simp: ARP_CACHE_SIZE_def)
  from alloc_full[OF ne] full assms obtain i where
    i: "oldest_first caches ARP_CACHE_SIZE i"
    and al: "arp_cache_alloc caches = (Some i, arp_cache_delete i caches)"
    by auto
  from i assms have lt: "i < length caches" by (simp add: oldest_first_def)
  have "arp_cache_insert pa ha now caches =
          (Some i, caches[i := \<lparr>cache_state = ARP_CACHE_STATE_RESOLVED, cache_pa = pa,
                                cache_ha = take ETHER_ADDR_LEN ha, cache_timestamp = now\<rparr>])"
    using al lt by (simp add: arp_cache_insert_def arp_cache_delete_def arp_cache_entry_overwrite)
  moreover have "arp_cache_delete i caches =
      caches[i := \<lparr>cache_state = ARP_CACHE_STATE_FREE, cache_pa = 0,
                   cache_ha = replicate ETHER_ADDR_LEN 0, cache_timestamp = timerclear\<rparr>]"
    by (simp add: arp_cache_delete_def arp_cache_entry_overwrite)
  ultimately show "\<exists>i. oldest_first caches ARP_CACHE_SIZE i
           \<and> arp_cache_alloc caches =
                (Some i, caches[i := \<lparr>cache_state = ARP_CACHE_STATE_FREE, cache_pa = 0,
                                      cache_ha = replicate ETHER_ADDR_LEN 0,
                                      cache_timestamp = timerclear\<rparr>])
           \<and> arp_cache_insert pa ha now caches =
                (Some i, caches[i := \<lparr>cache_state = ARP_CACHE_STATE_RESOLVED, cache_pa = pa,
                                      cache_ha = take ETHER_ADDR_LEN ha,
                                      cache_timestamp = now\<rparr>])"
    using i al by auto
next
  assume "\<exists>j<ARP_CACHE_SIZE. cache_state (caches ! j) = ARP_CACHE_STATE_FREE"
  with assms have "\<exists>j<length caches. cache_state (caches ! j) = ARP_CACHE_STATE_FREE" by simp
  from alloc_free[OF this] obtain i where
    lt: "i < length caches" and fr: "cache_state (caches ! i) = ARP_CACHE_STATE_FREE"
    and first: "\<forall>j<i. cache_state (caches ! j) \<noteq> ARP_CACHE_STATE_FREE"
    and al: "arp_cache_alloc caches = (Some i, caches)"
    by auto
  have "arp_cache_insert pa ha now caches =
          (Some i, caches[i := \<lparr>cache_state = ARP_CACHE_STATE_RESOLVED, cache_pa = pa,
                                cache_ha = take ETHER_ADDR_LEN ha, cache_timestamp = now\<rparr>])"
    using al by (simp add: arp_cache_insert_def arp_cache_entry_overwrite)
  with lt fr first al assms show "\<exists>i<ARP_CACHE_SIZE. cache_state (caches ! i) = ARP_CACHE_STATE_FREE
           \<and> (\<forall>j<i. cache_state (caches ! j) \<noteq> ARP_CACHE_STATE_FREE)
           \<and> arp_cache_alloc caches = (Some i, caches)
           \<and> arp_cache_insert pa ha now caches =
                (Some i, caches[i := \<lparr>cache_state = ARP_CACHE_STATE_RESOLVED, cache_pa = pa,
                                      cache_ha = take ETHER_ADDR_LEN ha,
                                      cache_timestamp = now\<rparr>])"
    by auto
qed

lemma example_caches_full_length: "length example_caches_full = ARP_CACHE_SIZE"
  by (simp add: example_caches_full_def)

lemma example_caches_full_nth:
  "j < ARP_CACHE_SIZE \<Longrightarrow> example_caches_full ! j = example_entry j"
  by (simp add: example_caches_full_def)

lemma example_caches_full_nonfree:
  "\<forall>j<ARP_CACHE_SIZE. cache_state (example_caches_full ! j) \<noteq> ARP_CACHE_STATE_FREE"
  by (simp add: example_caches_full_nth example_entry_def
        ARP_CACHE_STATE_RESOLVED_def ARP_CACHE_STATE_FREE_def)

lemma example_caches_free_length: "length example_caches_free = ARP_CACHE_SIZE"
  by (simp add: example_caches_free_def arp_cache_delete_def example_caches_full_length)

lemma example_caches_free_has_free:
  "\<exists>j<ARP_CACHE_SIZE. cache_state (example_caches_free ! j) = ARP_CACHE_STATE_FREE"
proof -
  have "3 < ARP_CACHE_SIZE" by (simp add: ARP_CACHE_SIZE_def)
  moreover have "cache_state (example_caches_free ! 3) = ARP_CACHE_STATE_FREE"
    by (simp add: example_caches_free_def arp_cache_delete_def example_caches_full_length
          ARP_CACHE_SIZE_def)
  ultimately show ?thesis by blast
qed

theorem arp_cache_insert_slot_witness:
  "length example_caches_full = ARP_CACHE_SIZE
   \<and> (\<exists>i. oldest_first example_caches_full ARP_CACHE_SIZE i
         \<and> arp_cache_insert 0x0100000a [1, 2, 3, 4, 5, 6] \<lparr>tv_sec = 200, tv_usec = 5\<rparr>
              example_caches_full =
            (Some i, example_caches_full[i :=
               \<lparr>cache_state = ARP_CACHE_STATE_RESOLVED, cache_pa = 0x0100000a,
                cache_ha = take ETHER_ADDR_LEN [1, 2, 3, 4, 5, 6],
                cache_timestamp = \<lparr>tv_sec = 200, tv_usec = 5\<rparr>\<rparr>]))
   \<and> length example_caches_free = ARP_CACHE_SIZE
   \<and> (\<exists>j<ARP_CACHE_SIZE. cache_state (example_caches_free ! j) = ARP_CACHE_STATE_FREE)
   \<and> (\<exists>i<ARP_CACHE_SIZE. cache_state (example_caches_free ! i) = ARP_CACHE_STATE_FREE
         \<and> arp_cache_alloc example_caches_free = (Some i, example_caches_free))"
  using arp_cache_insert_slot [OF example_caches_full_length,
          of "0x0100000a" "[1, 2, 3, 4, 5, 6]" "\<lparr>tv_sec = 200, tv_usec = 5\<rparr>"]
        arp_cache_insert_slot [OF example_caches_free_length,
          of "0x0100000a" "[1, 2, 3, 4, 5, 6]" "\<lparr>tv_sec = 200, tv_usec = 5\<rparr>"]
        example_caches_full_length example_caches_full_nonfree
        example_caches_free_length example_caches_free_has_free
  by blast

lemma select_None:
  "arp_cache_select pa caches = None \<longleftrightarrow>
     (\<forall>j<length caches.
        cache_state (caches ! j) = ARP_CACHE_STATE_FREE \<or> cache_pa (caches ! j) \<noteq> pa)"
  by (simp add: arp_cache_select_def select_loop_None)

lemma select_Some:
  "arp_cache_select pa caches = Some i \<Longrightarrow>
     i < length caches \<and> cache_state (caches ! i) \<noteq> ARP_CACHE_STATE_FREE
       \<and> cache_pa (caches ! i) = pa
       \<and> (\<forall>j<i. cache_state (caches ! j) = ARP_CACHE_STATE_FREE \<or> cache_pa (caches ! j) \<noteq> pa)"
  unfolding arp_cache_select_def by (drule select_loop_Some) simp

lemma select_found:
  assumes "\<exists>j<length caches.
             cache_state (caches ! j) \<noteq> ARP_CACHE_STATE_FREE \<and> cache_pa (caches ! j) = pa"
  shows "\<exists>i<length caches. cache_state (caches ! i) \<noteq> ARP_CACHE_STATE_FREE
           \<and> cache_pa (caches ! i) = pa
           \<and> (\<forall>j<i. cache_state (caches ! j) = ARP_CACHE_STATE_FREE \<or> cache_pa (caches ! j) \<noteq> pa)
           \<and> arp_cache_select pa caches = Some i"
proof -
  from assms have "arp_cache_select pa caches \<noteq> None"
    by (auto simp: select_None)
  then obtain i where "arp_cache_select pa caches = Some i" by blast
  with select_Some[OF this] show ?thesis by blast
qed

text \<open>
  Claim C6. \<open>arp_cache_update pa ha\<close> returns \<open>NULL\<close> and leaves the table as it
  is when no non-FREE entry holds \<open>pa\<close> (it never inserts). When such an entry exists,
  the first one in scan order gets state RESOLVED and time stamp \<open>now\<close>; its hardware
  address and protocol address, and every other entry, are unchanged.
\<close>

theorem arp_cache_update_frame:
  "((\<forall>j<length caches.
        cache_state (caches ! j) = ARP_CACHE_STATE_FREE \<or> cache_pa (caches ! j) \<noteq> pa) \<longrightarrow>
      arp_cache_update pa ha now caches = (None, caches))
   \<and> ((\<exists>j<length caches.
         cache_state (caches ! j) \<noteq> ARP_CACHE_STATE_FREE \<and> cache_pa (caches ! j) = pa) \<longrightarrow>
      (\<exists>i<length caches.
         cache_state (caches ! i) \<noteq> ARP_CACHE_STATE_FREE \<and> cache_pa (caches ! i) = pa
         \<and> (\<forall>j<i. cache_state (caches ! j) = ARP_CACHE_STATE_FREE \<or> cache_pa (caches ! j) \<noteq> pa)
         \<and> arp_cache_update pa ha now caches =
             (Some i, caches[i := (caches ! i)
                \<lparr>cache_state := ARP_CACHE_STATE_RESOLVED, cache_timestamp := now\<rparr>])
         \<and> length (snd (arp_cache_update pa ha now caches)) = length caches
         \<and> cache_state (snd (arp_cache_update pa ha now caches) ! i) = ARP_CACHE_STATE_RESOLVED
         \<and> cache_timestamp (snd (arp_cache_update pa ha now caches) ! i) = now
         \<and> cache_ha (snd (arp_cache_update pa ha now caches) ! i) = cache_ha (caches ! i)
         \<and> cache_pa (snd (arp_cache_update pa ha now caches) ! i) = cache_pa (caches ! i)
         \<and> (\<forall>j<length caches. j \<noteq> i \<longrightarrow>
               snd (arp_cache_update pa ha now caches) ! j = caches ! j)))"
proof (intro conjI impI)
  assume "\<forall>j<length caches.
        cache_state (caches ! j) = ARP_CACHE_STATE_FREE \<or> cache_pa (caches ! j) \<noteq> pa"
  then have "arp_cache_select pa caches = None" by (simp add: select_None)
  then show "arp_cache_update pa ha now caches = (None, caches)"
    by (simp add: arp_cache_update_def)
next
  assume "\<exists>j<length caches.
         cache_state (caches ! j) \<noteq> ARP_CACHE_STATE_FREE \<and> cache_pa (caches ! j) = pa"
  from select_found[OF this] obtain i where
    i: "i < length caches" "cache_state (caches ! i) \<noteq> ARP_CACHE_STATE_FREE"
       "cache_pa (caches ! i) = pa"
       "\<forall>j<i. cache_state (caches ! j) = ARP_CACHE_STATE_FREE \<or> cache_pa (caches ! j) \<noteq> pa"
    and sel: "arp_cache_select pa caches = Some i"
    by blast
  from sel have upd: "arp_cache_update pa ha now caches =
             (Some i, caches[i := (caches ! i)
                \<lparr>cache_state := ARP_CACHE_STATE_RESOLVED, cache_timestamp := now\<rparr>])"
    by (simp add: arp_cache_update_def)
  show "\<exists>i<length caches.
         cache_state (caches ! i) \<noteq> ARP_CACHE_STATE_FREE \<and> cache_pa (caches ! i) = pa
         \<and> (\<forall>j<i. cache_state (caches ! j) = ARP_CACHE_STATE_FREE \<or> cache_pa (caches ! j) \<noteq> pa)
         \<and> arp_cache_update pa ha now caches =
             (Some i, caches[i := (caches ! i)
                \<lparr>cache_state := ARP_CACHE_STATE_RESOLVED, cache_timestamp := now\<rparr>])
         \<and> length (snd (arp_cache_update pa ha now caches)) = length caches
         \<and> cache_state (snd (arp_cache_update pa ha now caches) ! i) = ARP_CACHE_STATE_RESOLVED
         \<and> cache_timestamp (snd (arp_cache_update pa ha now caches) ! i) = now
         \<and> cache_ha (snd (arp_cache_update pa ha now caches) ! i) = cache_ha (caches ! i)
         \<and> cache_pa (snd (arp_cache_update pa ha now caches) ! i) = cache_pa (caches ! i)
         \<and> (\<forall>j<length caches. j \<noteq> i \<longrightarrow>
               snd (arp_cache_update pa ha now caches) ! j = caches ! j)"
    using i by (intro exI[of _ i]) (simp add: upd)
qed

lemma example_caches_small_miss:
  "\<forall>j<length example_caches_small.
      cache_state (example_caches_small ! j) = ARP_CACHE_STATE_FREE
      \<or> cache_pa (example_caches_small ! j) \<noteq> 0x0300000a"
  by (simp add: example_caches_small_def All_less_Suc)

lemma example_caches_small_hit:
  "\<exists>j<length example_caches_small.
      cache_state (example_caches_small ! j) \<noteq> ARP_CACHE_STATE_FREE
      \<and> cache_pa (example_caches_small ! j) = 0x0100000a"
  by (simp add: example_caches_small_def Ex_less_Suc
        ARP_CACHE_STATE_FREE_def ARP_CACHE_STATE_RESOLVED_def)

theorem arp_cache_update_frame_witness:
  "arp_cache_update 0x0300000a [1, 2, 3, 4, 5, 6] \<lparr>tv_sec = 30, tv_usec = 0\<rparr>
        example_caches_small = (None, example_caches_small)
   \<and> (\<exists>j<length example_caches_small.
        cache_state (example_caches_small ! j) \<noteq> ARP_CACHE_STATE_FREE
        \<and> cache_pa (example_caches_small ! j) = 0x0100000a)
   \<and> (\<exists>i<length example_caches_small.
        arp_cache_update 0x0100000a [1, 2, 3, 4, 5, 6] \<lparr>tv_sec = 30, tv_usec = 0\<rparr>
          example_caches_small =
        (Some i, example_caches_small[i := (example_caches_small ! i)
           \<lparr>cache_state := ARP_CACHE_STATE_RESOLVED,
            cache_timestamp := \<lparr>tv_sec = 30, tv_usec = 0\<rparr>\<rparr>]))"
  using arp_cache_update_frame [of example_caches_small "0x0300000a"
          "[1, 2, 3, 4, 5, 6]" "\<lparr>tv_sec = 30, tv_usec = 0\<rparr>"]
        arp_cache_update_frame [of example_caches_small "0x0100000a"
          "[1, 2, 3, 4, 5, 6]" "\<lparr>tv_sec = 30, tv_usec = 0\<rparr>"]
        example_caches_small_miss example_caches_small_hit
  by blast

section \<open>Claims on device output and resolution\<close>

text \<open>
  Claim C8. \<open>net_device_output\<close> fails (returns -1) when the device is down, and fails
  when \<open>len\<close> exceeds the device's MTU, in particular at \<open>len = MTU + 1\<close>; in both
  cases the world is unchanged, so no driver call is made. Otherwise the driver's transmit
  callback is called exactly once, with the payload, its full length, the type and the
  destination as given, and the result is -1 when the callback returned -1 and 0 otherwise.
\<close>

theorem net_device_output_cases:
  "(\<not> NET_DEVICE_IS_UP (mem_dev w dev) \<longrightarrow>
      net_device_output dev type data len dst w = (- 1, w))
   \<and> (len > unat (dev_mtu (mem_dev w dev)) \<longrightarrow>
      net_device_output dev type data len dst w = (- 1, w))
   \<and> net_device_output dev type data (Suc (unat (dev_mtu (mem_dev w dev)))) dst w = (- 1, w)
   \<and> (NET_DEVICE_IS_UP (mem_dev w dev) \<and> len \<le> unat (dev_mtu (mem_dev w dev)) \<longrightarrow>
      net_device_output dev type data len dst w =
        (if dev_transmit (mem_dev w dev) type data len dst = - 1 then - 1 else 0,
         w\<lparr>drv_calls := drv_calls w @
              [\<lparr>call_dev = dev, call_type = type, call_data = data,
                call_len = len, call_dst = dst\<rparr>]\<rparr>))"
  by (simp add: net_device_output_def Let_def)

lemma example_ether_dev_up: "NET_DEVICE_IS_UP (mem_dev example_world 1)"
  by (simp add: example_world_def example_ether_dev_def NET_DEVICE_IS_UP_def
        NET_DEVICE_FLAG_UP_def)

lemma example_other_dev_down: "\<not> NET_DEVICE_IS_UP (mem_dev example_world 2)"
  by (simp add: example_world_def example_other_dev_def NET_DEVICE_IS_UP_def)

lemma example_ether_dev_mtu: "unat (dev_mtu (mem_dev example_world 1)) = 1500"
  by (simp add: example_world_def example_ether_dev_def)

theorem net_device_output_cases_witness:
  "net_device_output 2 ETHER_TYPE_IP [1, 2, 3] 3 [] example_world = (- 1, example_world)
   \<and> net_device_output 1 ETHER_TYPE_IP (replicate 1501 0) 1501 [] example_world
       = (- 1, example_world)
   \<and> net_device_output 1 ETHER_TYPE_IP [1, 2, 3] 3 [] example_world =
       (0, example_world\<lparr>drv_calls :=
             [\<lparr>call_dev = 1, call_type = ETHER_TYPE_IP, call_data = [1, 2, 3],
               call_len = 3, call_dst = []\<rparr>]\<rparr>)"
proof -
  have tx: "dev_transmit (mem_dev example_world 1) ETHER_TYPE_IP [1, 2, 3] 3 [] = 0"
    by (simp add: example_world_def example_ether_dev_def)
  have calls: "drv_calls example_world = []"
    by (simp add: example_world_def)
  show ?thesis
    using net_device_output_cases [of example_world 2 ETHER_TYPE_IP "[1, 2, 3]" 3 "[]"]
          net_device_output_cases [of example_world 1 ETHER_TYPE_IP "replicate 1501 0" 1501 "[]"]
          net_device_output_cases [of example_world 1 ETHER_TYPE_IP "[1, 2, 3]" 3 "[]"]
          example_ether_dev_up example_other_dev_down example_ether_dev_mtu tx calls
    by simp
qed

text \<open>
  Claim C5. \<open>arp_resolve\<close> returns \<open>ARP_RESOLVE_ERROR\<close> whenever the interface's
  device is not an Ethernet device or the interface's family is not IP, whatever the cache
  holds (the result does not depend on the table). Otherwise, when no non-FREE entry holds
  \<open>pa\<close>, it returns \<open>ARP_RESOLVE_ERROR\<close> and leaves the caller's buffer alone; when
  such an entry exists, it copies the hardware address of the first one in scan order into
  the caller's buffer and returns \<open>ARP_RESOLVE_FOUND\<close>. In every case the world is
  returned unchanged: the table is not modified and nothing is transmitted.
\<close>

theorem arp_resolve_cases:
  "((dev_type (mem_dev w (iface_dev iface)) \<noteq> NET_DEVICE_TYPE_ETHERNET
       \<or> iface_family iface \<noteq> NET_IFACE_FAMILY_IP) \<longrightarrow>
      (\<forall>caches. arp_resolve iface pa ha (w\<lparr>arp_caches := caches\<rparr>)
                 = (ARP_RESOLVE_ERROR, ha, w\<lparr>arp_caches := caches\<rparr>)))
   \<and> ((dev_type (mem_dev w (iface_dev iface)) = NET_DEVICE_TYPE_ETHERNET
       \<and> iface_family iface = NET_IFACE_FAMILY_IP) \<longrightarrow>
      ((\<forall>j<length (arp_caches w).
           cache_state (arp_caches w ! j) = ARP_CACHE_STATE_FREE
           \<or> cache_pa (arp_caches w ! j) \<noteq> pa) \<longrightarrow>
         arp_resolve iface pa ha w = (ARP_RESOLVE_ERROR, ha, w))
      \<and> ((\<exists>j<length (arp_caches w).
           cache_state (arp_caches w ! j) \<noteq> ARP_CACHE_STATE_FREE
           \<and> cache_pa (arp_caches w ! j) = pa) \<longrightarrow>
         (\<exists>i<length (arp_caches w).
            cache_state (arp_caches w ! i) \<noteq> ARP_CACHE_STATE_FREE
            \<and> cache_pa (arp_caches w ! i) = pa
            \<and> (\<forall>j<i. cache_state (arp_caches w ! j) = ARP_CACHE_STATE_FREE
                      \<or> cache_pa (arp_caches w ! j) \<noteq> pa)
            \<and> arp_resolve iface pa ha w =
                 (ARP_RESOLVE_FOUND,
                  take ETHER_ADDR_LEN (cache_ha (arp_caches w ! i)) @ drop ETHER_ADDR_LEN ha,
                  w))))"
proof (intro conjI impI allI)
  fix caches
  assume "dev_type (mem_dev w (iface_dev iface)) \<noteq> NET_DEVICE_TYPE_ETHERNET
       \<or> iface_family iface \<noteq> NET_IFACE_FAMILY_IP"
  then show "arp_resolve iface pa ha (w\<lparr>arp_caches := caches\<rparr>)
                 = (ARP_RESOLVE_ERROR, ha, w\<lparr>arp_caches := caches\<rparr>)"
    by (auto simp: arp_resolve_def)
next
  assume ok: "dev_type (mem_dev w (iface_dev iface)) = NET_DEVICE_TYPE_ETHERNET
       \<and> iface_family iface = NET_IFACE_FAMILY_IP"
    and "\<forall>j<length (arp_caches w).
           cache_state (arp_caches w ! j) = ARP_CACHE_STATE_FREE
           \<or> cache_pa (arp_caches w ! j) \<noteq> pa"
  then have "arp_cache_select pa (arp_caches w) = None"
    by (simp add: select_None)
  with ok show "arp_resolve iface pa ha w = (ARP_RESOLVE_ERROR, ha, w)"
    by (simp add: arp_resolve_def)
next
  assume ok: "dev_type (mem_dev w (iface_dev iface)) = NET_DEVICE_TYPE_ETHERNET
       \<and> iface_family iface = NET_IFACE_FAMILY_IP"
    and "\<exists>j<length (arp_caches w).
           cache_state (arp_caches w ! j) \<noteq> ARP_CACHE_STATE_FREE
           \<and> cache_pa (arp_caches w ! j) = pa"
  from select_found[OF this(2)] obtain i where
    i: "i < length (arp_caches w)" "cache_state (arp_caches w ! i) \<noteq> ARP_CACHE_STATE_FREE"
       "cache_pa (arp_caches w ! i) = pa"
       "\<forall>j<i. cache_state (arp_caches w ! j) = ARP_CACHE_STATE_FREE
              \<or> cache_pa (arp_caches w ! j) \<noteq> pa"
    and sel: "arp_cache_select pa (arp_caches w) = Some i"
    by blast
  from ok sel have "arp_resolve iface pa ha w =
                 (ARP_RESOLVE_FOUND,
                  take ETHER_ADDR_LEN (cache_ha (arp_caches w ! i)) @ drop ETHER_ADDR_LEN ha,
                  w)"
    by (simp add: arp_resolve_def)
  with i show "\<exists>i<length (arp_caches w).
            cache_state (arp_caches w ! i) \<noteq> ARP_CACHE_STATE_FREE
            \<and> cache_pa (arp_caches w ! i) = pa
            \<and> (\<forall>j<i. cache_state (arp_caches w ! j) = ARP_CACHE_STATE_FREE
                      \<or> cache_pa (arp_caches w ! j) \<noteq> pa)
            \<and> arp_resolve iface pa ha w =
                 (ARP_RESOLVE_FOUND,
                  take ETHER_ADDR_LEN (cache_ha (arp_caches w ! i)) @ drop ETHER_ADDR_LEN ha,
                  w)"
    by blast
qed

lemma example_iface_supported:
  "dev_type (mem_dev example_world (iface_dev example_iface)) = NET_DEVICE_TYPE_ETHERNET
   \<and> iface_family example_iface = NET_IFACE_FAMILY_IP"
  by (simp add: example_world_def example_iface_def example_ether_dev_def)

lemma example_iface_unsupported:
  "dev_type (mem_dev example_world (iface_dev (example_iface\<lparr>iface_dev := 2\<rparr>)))
     \<noteq> NET_DEVICE_TYPE_ETHERNET"
  by (simp add: example_world_def example_other_dev_def NET_DEVICE_TYPE_ETHERNET_def)

lemma example_world_caches: "arp_caches example_world = example_caches_small"
  by (simp add: example_world_def)

theorem arp_resolve_cases_witness:
  "(\<forall>caches. arp_resolve (example_iface\<lparr>iface_dev := 2\<rparr>) 0x0100000a (replicate 6 0)
               (example_world\<lparr>arp_caches := caches\<rparr>)
             = (ARP_RESOLVE_ERROR, replicate 6 0, example_world\<lparr>arp_caches := caches\<rparr>))
   \<and> arp_resolve example_iface 0x0300000a (replicate 6 0) example_world
       = (ARP_RESOLVE_ERROR, replicate 6 0, example_world)
   \<and> (\<exists>i<length (arp_caches example_world).
        arp_resolve example_iface 0x0100000a (replicate 6 0) example_world =
          (ARP_RESOLVE_FOUND,
           take ETHER_ADDR_LEN (cache_ha (arp_caches example_world ! i))
             @ drop ETHER_ADDR_LEN (replicate 6 0),
           example_world))"
  using arp_resolve_cases [of example_world "example_iface\<lparr>iface_dev := 2\<rparr>"
          "0x0100000a" "replicate 6 0"]
        arp_resolve_cases [of example_world example_iface "0x0300000a" "replicate 6 0"]
        arp_resolve_cases [of example_world example_iface "0x0100000a" "replicate 6 0"]
        example_iface_supported example_iface_unsupported
        example_caches_small_miss example_caches_small_hit example_world_caches
  by (simp only:) blast

section \<open>The ARP message in memory\<close>

lemma load16_store16: "load16 (store16 w) = w"
proof (rule bit_word_eqI)
  fix n assume "n < LENGTH(16)"
  then have n: "n < 16" by simp
  show "bit (load16 (store16 w)) n = bit w n"
  proof (cases "n < 8")
    case True
    then show ?thesis using n
      by (simp add: load16_def store16_def bit_simps)
  next
    case False
    then have "n - 8 + 8 = n" "n - 8 < 8" using n by simp_all
    then show ?thesis using n False
      by (simp add: load16_def store16_def bit_simps)
  qed
qed

lemma load32_store32: "load32 (store32 w) = w"
proof (rule bit_word_eqI)
  fix n assume "n < LENGTH(32)"
  then have n: "n < 32" by simp
  show "bit (load32 (store32 w)) n = bit w n"
  proof (cases n rule: byte_ranges)
    case 1
    then show ?thesis by (simp add: load32_def store32_def bit_simps)
  next
    case 2
    then have "n - 8 + 8 = n" "n - 8 < 8" by simp_all
    then show ?thesis using 2 by (simp add: load32_def store32_def bit_simps)
  next
    case 3
    then have "n - 16 + 16 = n" "n - 16 < 8" "\<not> n - 8 < 8" by simp_all
    then show ?thesis using 3 by (simp add: load32_def store32_def bit_simps)
  next
    case 4
    then have "n - 24 + 24 = n" "n - 24 < 8" "\<not> n - 8 < 8" "\<not> n - 16 < 8" by simp_all
    then show ?thesis using 4 by (simp add: load32_def store32_def bit_simps)
  next
    case 5
    then show ?thesis using n by simp
  qed
qed

lemma store32_byte:
  fixes b0 b1 b2 b3 :: byte
  shows "store32 (load32 [b0, b1, b2, b3]) = [b0, b1, b2, b3]"
proof -
  let ?w = "load32 [b0, b1, b2, b3]"
  have b: "bit ?w n \<longleftrightarrow>
      (n < 8 \<and> bit b0 n) \<or> (8 \<le> n \<and> n < 16 \<and> bit b1 (n - 8))
      \<or> (16 \<le> n \<and> n < 24 \<and> bit b2 (n - 16)) \<or> (24 \<le> n \<and> n < 32 \<and> bit b3 (n - 24))" for n
    apply (simp add: load32_def bit_simps)
    apply (cases n rule: byte_ranges)
    apply (auto dest: bit_imp_le_length)
    done
  have "ucast ?w = b0"
    by (rule bit_word_eqI) (auto simp add: bit_simps b)
  moreover have "ucast (drop_bit 8 ?w) = b1"
    by (rule bit_word_eqI) (auto simp add: bit_simps b)
  moreover have "ucast (drop_bit 16 ?w) = b2"
    by (rule bit_word_eqI) (auto simp add: bit_simps b)
  moreover have "ucast (drop_bit 24 ?w) = b3"
    by (rule bit_word_eqI) (auto simp add: bit_simps b)
  ultimately show ?thesis by (simp add: store32_def)
qed

lemma store32_load32:
  assumes "length bs = IP_ADDR_LEN"
  shows "store32 (load32 bs) = bs"
proof -
  from assms obtain b0 b1 b2 b3 where "bs = [b0, b1, b2, b3]"
    by (auto simp: IP_ADDR_LEN_def length_Suc_conv eval_nat_numeral)
  then show ?thesis by (simp add: store32_byte)
qed

lemma length_store32: "length (store32 w) = IP_ADDR_LEN"
  by (simp add: store32_def IP_ADDR_LEN_def)

lemma arp_ether_ip_of_bytes_inverse:
  assumes "length (msg_sha m) = ETHER_ADDR_LEN" "length (msg_spa m) = IP_ADDR_LEN"
    "length (msg_tha m) = ETHER_ADDR_LEN" "length (msg_tpa m) = IP_ADDR_LEN"
  shows "arp_ether_ip_of_bytes (bytes_of_arp_ether_ip (m :: arp_ether_ip)) = m"
proof -
  obtain h sha spa tha tpa where m:
    "m = \<lparr>msg_hdr = h, msg_sha = sha, msg_spa = spa, msg_tha = tha, msg_tpa = tpa\<rparr>"
    by (cases m) auto
  obtain hrd pro hln pln op where h:
    "h = \<lparr>hdr_hrd = hrd, hdr_pro = pro, hdr_hln = hln, hdr_pln = pln, hdr_op = op\<rparr>"
    by (cases h) auto
  have s16: "\<And>w rest. take 2 (store16 w @ rest) = store16 w"
    "\<And>w rest. drop 2 (store16 w @ rest) = rest"
    by (simp_all add: store16_def)
  from assms have len: "length sha = 6" "length spa = 4" "length tha = 6" "length tpa = 4"
    by (simp_all add: m ETHER_ADDR_LEN_def IP_ADDR_LEN_def)
  have hdr: "store16 hrd @ store16 pro @ [hln, pln] @ store16 op @ sha @ spa @ tha @ tpa
     = [ucast hrd, ucast (drop_bit 8 hrd), ucast pro, ucast (drop_bit 8 pro), hln, pln,
        ucast op, ucast (drop_bit 8 op)] @ sha @ spa @ tha @ tpa"
    by (simp add: store16_def)
  show ?thesis
    unfolding m h arp_ether_ip_of_bytes_def bytes_of_arp_ether_ip_def
    using len load16_store16[of hrd] load16_store16[of pro] load16_store16[of op]
    by (simp add: ETHER_ADDR_LEN_def IP_ADDR_LEN_def store16_def)
qed

lemma length_bytes_of_arp_ether_ip:
  assumes "length (msg_sha m) = ETHER_ADDR_LEN" "length (msg_spa m) = IP_ADDR_LEN"
    "length (msg_tha m) = ETHER_ADDR_LEN" "length (msg_tpa m) = IP_ADDR_LEN"
  shows "length (bytes_of_arp_ether_ip m) = sizeof_arp_ether_ip"
  using assms
  by (simp add: bytes_of_arp_ether_ip_def store16_def sizeof_arp_ether_ip_def
        ETHER_ADDR_LEN_def IP_ADDR_LEN_def)

lemma ntoh16_hton16_consts:
  "ntoh16 (hton16 ARP_HRD_ETHER) = ARP_HRD_ETHER"
  "ntoh16 (hton16 ARP_PRO_IP) = ARP_PRO_IP"
  "ntoh16 (hton16 ARP_OP_REQUEST) = ARP_OP_REQUEST"
  "ntoh16 (hton16 ARP_OP_REPLY) = ARP_OP_REPLY"
  "ntoh16 (hton16 ARP_OP_REPLY) \<noteq> ARP_OP_REQUEST"
  by (simp_all add: ntoh16_def hton16_def byteswap16_def ARP_HRD_ETHER_def ARP_PRO_IP_def
        ETHER_TYPE_IP_def ARP_OP_REQUEST_def ARP_OP_REPLY_def)

section \<open>Claims on the ARP handler\<close>

lemma arp_reply_eq:
  "arp_reply iface tha tpa dst w =
     net_device_output (iface_dev iface) ETHER_TYPE_ARP
       (bytes_of_arp_ether_ip
          (arp_message ARP_OP_REPLY (take ETHER_ADDR_LEN (dev_addr (mem_dev w (iface_dev iface))))
             (store32 (unicast iface)) (take ETHER_ADDR_LEN tha) (store32 tpa)))
       sizeof_arp_ether_ip dst w"
  by (simp add: arp_reply_def arp_message_def Let_def)

lemma arp_input_request:
  assumes len: "length sha = ETHER_ADDR_LEN" "length spa = IP_ADDR_LEN"
      "length tha = ETHER_ADDR_LEN"
    and iface: "net_device_get_iface (mem_dev w dev) NET_IFACE_FAMILY_IP = Some iface"
    and data: "data = bytes_of_arp_ether_ip
        (arp_message ARP_OP_REQUEST sha spa tha (store32 (unicast iface)))"
  shows "\<exists>caches'. arp_input data sizeof_arp_ether_ip dev now w =
      snd (net_device_output (iface_dev iface) ETHER_TYPE_ARP
        (bytes_of_arp_ether_ip
           (arp_message ARP_OP_REPLY
              (take ETHER_ADDR_LEN (dev_addr (mem_dev w (iface_dev iface))))
              (store32 (unicast iface)) sha spa))
        sizeof_arp_ether_ip sha (w\<lparr>arp_caches := caches'\<rparr>))"
proof -
  let ?m = "arp_message ARP_OP_REQUEST sha spa tha (store32 (unicast iface))"
  have parse: "arp_ether_ip_of_bytes data = ?m"
    unfolding data
    by (rule arp_ether_ip_of_bytes_inverse) (simp_all add: arp_message_def len length_store32)
  have fields: "msg_sha ?m = sha" "msg_spa ?m = spa" "msg_tpa ?m = store32 (unicast iface)"
    "hdr_hrd (msg_hdr ?m) = hton16 ARP_HRD_ETHER" "hdr_pro (msg_hdr ?m) = hton16 ARP_PRO_IP"
    "hdr_hln (msg_hdr ?m) = of_nat ETHER_ADDR_LEN" "hdr_pln (msg_hdr ?m) = of_nat IP_ADDR_LEN"
    "hdr_op (msg_hdr ?m) = hton16 ARP_OP_REQUEST"
    by (simp_all add: arp_message_def)
  define updated where "updated = arp_cache_update (load32 spa) sha now (arp_caches w)"
  define caches' where "caches' =
     (if fst updated \<noteq> None then snd updated
      else snd (arp_cache_insert (load32 spa) sha now (snd updated)))"
  have "arp_input data sizeof_arp_ether_ip dev now w =
      snd (arp_reply iface sha (load32 spa) sha (w\<lparr>arp_caches := caches'\<rparr>))"
    unfolding arp_input_def parse fields Let_def
    using iface
    by (simp add: ntoh16_hton16_consts load32_store32 updated_def caches'_def)
  also have "\<dots> = snd (net_device_output (iface_dev iface) ETHER_TYPE_ARP
        (bytes_of_arp_ether_ip
           (arp_message ARP_OP_REPLY
              (take ETHER_ADDR_LEN (dev_addr (mem_dev w (iface_dev iface))))
              (store32 (unicast iface)) sha spa))
        sizeof_arp_ether_ip sha (w\<lparr>arp_caches := caches'\<rparr>))"
    by (simp add: arp_reply_eq len store32_load32)
  finally show ?thesis by blast
qed

text \<open>
  Claim C3. A valid 28-byte ARP REQUEST with sender fields \<open>(sha, spa)\<close> whose target
  protocol address is the unicast address of the receiving device's IP interface makes
  \<open>arp_input\<close> hand exactly one message to the device transmit operation
  \<open>net_device_output\<close>: the 28-byte REPLY whose sender fields are the hardware address
  of the interface's device and the interface's unicast address and whose target fields
  are \<open>sha\<close> and \<open>spa\<close>, sent on the interface's device with type ARP to destination
  \<open>sha\<close>. When that device is up and its MTU admits 28 bytes, the driver is called
  exactly once, with that frame; otherwise the transmit operation refuses and the driver
  is not called.
\<close>

theorem arp_input_request_reply:
  assumes "length sha = ETHER_ADDR_LEN" "length spa = IP_ADDR_LEN"
      "length tha = ETHER_ADDR_LEN"
    and "net_device_get_iface (mem_dev w dev) NET_IFACE_FAMILY_IP = Some iface"
    and "data = bytes_of_arp_ether_ip
        (arp_message ARP_OP_REQUEST sha spa tha (store32 (unicast iface)))"
  shows "length data = sizeof_arp_ether_ip
    \<and> (\<exists>caches'. arp_input data sizeof_arp_ether_ip dev now w =
         snd (net_device_output (iface_dev iface) ETHER_TYPE_ARP
           (bytes_of_arp_ether_ip
              (arp_message ARP_OP_REPLY
                 (take ETHER_ADDR_LEN (dev_addr (mem_dev w (iface_dev iface))))
                 (store32 (unicast iface)) sha spa))
           sizeof_arp_ether_ip sha (w\<lparr>arp_caches := caches'\<rparr>)))
    \<and> (NET_DEVICE_IS_UP (mem_dev w (iface_dev iface))
         \<and> sizeof_arp_ether_ip \<le> unat (dev_mtu (mem_dev w (iface_dev iface))) \<longrightarrow>
        drv_calls (arp_input data sizeof_arp_ether_ip dev now w) =
          drv_calls w @
            [\<lparr>call_dev = iface_dev iface, call_type = ETHER_TYPE_ARP,
              call_data = bytes_of_arp_ether_ip
                (arp_message ARP_OP_REPLY
                   (take ETHER_ADDR_LEN (dev_addr (mem_dev w (iface_dev iface))))
                   (store32 (unicast iface)) sha spa),
              call_len = sizeof_arp_ether_ip, call_dst = sha\<rparr>])
    \<and> (\<not> (NET_DEVICE_IS_UP (mem_dev w (iface_dev iface))
           \<and> sizeof_arp_ether_ip \<le> unat (dev_mtu (mem_dev w (iface_dev iface)))) \<longrightarrow>
        drv_calls (arp_input data sizeof_arp_ether_ip dev now w) = drv_calls w)"
proof -
  from arp_input_request[OF assms, of now] obtain caches' where
    eq: "arp_input data sizeof_arp_ether_ip dev now w =
         snd (net_device_output (iface_dev iface) ETHER_TYPE_ARP
           (bytes_of_arp_ether_ip
              (arp_message ARP_OP_REPLY
                 (take ETHER_ADDR_LEN (dev_addr (mem_dev w (iface_dev iface))))
                 (store32 (unicast iface)) sha spa))
           sizeof_arp_ether_ip sha (w\<lparr>arp_caches := caches'\<rparr>))"
    by blast
  have "length data = sizeof_arp_ether_ip"
    unfolding assms(5)
    by (rule length_bytes_of_arp_ether_ip) (simp_all add: arp_message_def assms length_store32)
  moreover from eq have "\<exists>caches'. arp_input data sizeof_arp_ether_ip dev now w =
         snd (net_device_output (iface_dev iface) ETHER_TYPE_ARP
           (bytes_of_arp_ether_ip
              (arp_message ARP_OP_REPLY
                 (take ETHER_ADDR_LEN (dev_addr (mem_dev w (iface_dev iface))))
                 (store32 (unicast iface)) sha spa))
           sizeof_arp_ether_ip sha (w\<lparr>arp_caches := caches'\<rparr>))"
    by blast
  ultimately show ?thesis
    unfolding eq by (auto simp add: net_device_output_def Let_def)
qed

lemma example_world_iface:
  "net_device_get_iface (mem_dev example_world 1) NET_IFACE_FAMILY_IP = Some example_iface"
  by (simp add: net_device_get_iface_def example_world_def example_ether_dev_def
        example_iface_def)

lemma example_iface_dev: "iface_dev example_iface = 1"
  by (simp add: example_iface_def)

lemma example_reply_bytes:
  "bytes_of_arp_ether_ip
     (arp_message ARP_OP_REPLY
        (take ETHER_ADDR_LEN (dev_addr (mem_dev example_world 1)))
        (store32 (unicast example_iface)) [0xaa, 0xaa, 0xaa, 0xaa, 0xaa, 0xaa] [10, 0, 0, 1])
   = [0, 1, 8, 0, 6, 4, 0, 2,
      0x02, 0, 0, 0, 0, 0x01, 10, 0, 0, 2,
      0xaa, 0xaa, 0xaa, 0xaa, 0xaa, 0xaa, 10, 0, 0, 1]"
  by (simp add: bytes_of_arp_ether_ip_def arp_message_def store16_def store32_def hton16_def
        byteswap16_def ARP_HRD_ETHER_def ARP_PRO_IP_def ETHER_TYPE_IP_def ARP_OP_REPLY_def
        ETHER_ADDR_LEN_def IP_ADDR_LEN_def example_world_def example_ether_dev_def
        example_iface_def)

lemma example_request_bytes:
  "example_request =
     [0, 1, 8, 0, 6, 4, 0, 1,
      0xaa, 0xaa, 0xaa, 0xaa, 0xaa, 0xaa, 10, 0, 0, 1,
      0, 0, 0, 0, 0, 0, 10, 0, 0, 2]"
  by (simp add: example_request_def bytes_of_arp_ether_ip_def arp_message_def store16_def
        store32_def hton16_def byteswap16_def ARP_HRD_ETHER_def ARP_PRO_IP_def
        ETHER_TYPE_IP_def ARP_OP_REQUEST_def ETHER_ADDR_LEN_def IP_ADDR_LEN_def
        example_iface_def)

theorem arp_input_request_reply_witness:
  "length example_request = sizeof_arp_ether_ip
   \<and> drv_calls (arp_input example_request sizeof_arp_ether_ip 1
        \<lparr>tv_sec = 30, tv_usec = 0\<rparr> example_world) =
      [\<lparr>call_dev = 1, call_type = ETHER_TYPE_ARP,
        call_data = [0, 1, 8, 0, 6, 4, 0, 2,
                     0x02, 0, 0, 0, 0, 0x01, 10, 0, 0, 2,
                     0xaa, 0xaa, 0xaa, 0xaa, 0xaa, 0xaa, 10, 0, 0, 1],
        call_len = sizeof_arp_ether_ip,
        call_dst = [0xaa, 0xaa, 0xaa, 0xaa, 0xaa, 0xaa]\<rparr>]"
proof -
  have len: "length [0xaa, 0xaa, 0xaa, 0xaa, 0xaa, 0xaa :: byte] = ETHER_ADDR_LEN"
    "length [10, 0, 0, 1 :: byte] = IP_ADDR_LEN"
    "length [0, 0, 0, 0, 0, 0 :: byte] = ETHER_ADDR_LEN"
    by (simp_all add: ETHER_ADDR_LEN_def IP_ADDR_LEN_def)
  have mtu: "sizeof_arp_ether_ip \<le> unat (dev_mtu (mem_dev example_world 1))"
    using example_ether_dev_mtu by (simp add: sizeof_arp_ether_ip_def)
  have calls: "drv_calls example_world = []"
    by (simp add: example_world_def)
  show ?thesis
    using arp_input_request_reply [OF len example_world_iface example_request_def,
            of "\<lparr>tv_sec = 30, tv_usec = 0\<rparr>"]
          example_ether_dev_up mtu calls example_reply_bytes
    by (simp add: example_iface_dev)
qed

section \<open>The registry with a record linked to itself\<close>

lemma register_loop_self_loop:
  assumes "proto \<noteq> NULL" "proto_next (mem proto) = proto" "type \<noteq> proto_type (mem proto)"
  shows "net_protocol_register_loop mem type proto = None"
proof (rule ccontr)
  assume "net_protocol_register_loop mem type proto \<noteq> None"
  then obtain y where y: "net_protocol_register_loop mem type proto = Some y" by blast
  have "\<not> (proto \<noteq> NULL \<and> proto_next (mem proto) = proto \<and> type \<noteq> proto_type (mem proto))"
    by (rule net_protocol_register_loop.raw_induct
          [where P = "\<lambda>mem type proto y.
             \<not> (proto \<noteq> NULL \<and> proto_next (mem proto) = proto \<and> type \<noteq> proto_type (mem proto))",
           OF _ y])
       (fastforce split: if_splits)
  with assms show False by simp
qed

lemma input_loop_self_loop:
  assumes "proto \<noteq> NULL" "proto_next (proto_mem s proto) = proto"
    "proto_type (proto_mem s proto) \<noteq> type"
  shows "net_input_handler_loop type data len dev alloc_ok s proto = None"
proof (rule ccontr)
  assume "net_input_handler_loop type data len dev alloc_ok s proto \<noteq> None"
  then obtain y where y: "net_input_handler_loop type data len dev alloc_ok s proto = Some y"
    by blast
  have "\<not> (proto \<noteq> NULL \<and> proto_next (proto_mem s proto) = proto
           \<and> proto_type (proto_mem s proto) \<noteq> type)"
    by (rule net_input_handler_loop.raw_induct
          [where P = "\<lambda>type data len dev alloc_ok s proto y.
             \<not> (proto \<noteq> NULL \<and> proto_next (proto_mem s proto) = proto
                \<and> proto_type (proto_mem s proto) \<noteq> type)",
           OF _ y])
       (fastforce split: if_splits)
  with assms show False by simp
qed

lemma drain_result:
  "net_softirq_handler_drain proto s =
     s\<lparr>proto_mem := (proto_mem s)(proto := (proto_mem s proto)\<lparr>proto_queue := []\<rparr>),
       handled := handled s @
         map (\<lambda>entry. \<lparr>hcall_handler = proto_handler (proto_mem s proto),
                        hcall_data = entry_data entry,
                        hcall_len = entry_len entry,
                        hcall_dev = entry_dev entry\<rparr>)
           (proto_queue (proto_mem s proto))\<rparr>"
proof (induction proto s rule: net_softirq_handler_drain.induct)
  case (1 proto s)
  show ?case
  proof (cases "proto_queue (proto_mem s proto)")
    case Nil
    then have e: "(proto_mem s proto)\<lparr>proto_queue := []\<rparr> = proto_mem s proto"
      by (metis net_protocol.surjective net_protocol.update_convs(3))
    show ?thesis
      by (subst net_softirq_handler_drain.simps) (simp add: queue_pop_def Nil e)
  next
    case (Cons entry rest)
    then have pop: "queue_pop (proto_queue (proto_mem s proto)) = (Some entry, rest)"
      by (simp add: queue_pop_def)
    show ?thesis
      apply (subst net_softirq_handler_drain.simps)
      apply (simp add: queue_pop_def "1.IH"[OF pop[symmetric] refl] Cons)
      apply (simp add: fun_upd_def cong: if_cong)
      done
  qed
qed

lemma drain_next [simp]:
  "proto_next (proto_mem (net_softirq_handler_drain proto s) p) = proto_next (proto_mem s p)"
  by (simp add: drain_result)

lemma softirq_loop_self_loop:
  assumes "proto \<noteq> NULL" "proto_next (proto_mem s proto) = proto"
  shows "net_softirq_handler_loop proto s = None"
proof (rule ccontr)
  assume "net_softirq_handler_loop proto s \<noteq> None"
  then obtain y where y: "net_softirq_handler_loop proto s = Some y" by blast
  have "\<not> (proto \<noteq> NULL \<and> proto_next (proto_mem s proto) = proto)"
    by (rule net_softirq_handler_loop.raw_induct
          [where P = "\<lambda>proto s y. \<not> (proto \<noteq> NULL \<and> proto_next (proto_mem s proto) = proto)",
           OF _ y])
       (fastforce split: if_splits simp: Let_def)
  with assms show False by simp
qed

lemma register_success:
  assumes "net_protocol_register type handler alloc s = Some (0, s1)"
  shows "alloc \<noteq> NULL
    \<and> s1 = s\<lparr>proto_mem := (proto_mem s)
                 (alloc := \<lparr>proto_next = alloc, proto_type = type,
                            proto_queue = [], proto_handler = handler\<rparr>),
              protocols := alloc\<rparr>"
  using assms
  by (auto simp: net_protocol_register_def Let_def split: option.splits bool.splits if_splits)

lemma register_gives_head:
  assumes "net_protocol_register type handler alloc s = Some (0, s1)"
  shows "registered_head type handler alloc s1 \<and> proto_queue (proto_mem s1 alloc) = []"
  using register_success[OF assms] by (simp add: registered_head_def)

lemma register_on_head:
  assumes "registered_head type handler proto s"
  shows "net_protocol_register type handler' alloc' s = Some (- 1, s)"
proof -
  from assms have "net_protocol_register_loop (proto_mem s) type (protocols s) = Some True"
    by (subst net_protocol_register_loop.simps) (simp add: registered_head_def)
  then show ?thesis by (simp add: net_protocol_register_def)
qed

lemma input_on_head:
  assumes "registered_head type handler proto s"
  shows "net_input_handler type' data len dev True s =
     (if type' = type
      then Some (0, s\<lparr>proto_mem := (proto_mem s)
                        (proto := (proto_mem s proto)
                           \<lparr>proto_queue := proto_queue (proto_mem s proto)
                              @ [entry_of_frame (type', data, len, dev)]\<rparr>),
                      irqs := Suc (irqs s)\<rparr>)
      else None)"
proof (cases "type' = type")
  case True
  with assms show ?thesis
    unfolding net_input_handler_def
    by (subst net_input_handler_loop.simps)
       (simp add: registered_head_def Let_def queue_push_def entry_of_frame_def)
next
  case False
  with assms have "net_input_handler_loop type' data len dev True s proto = None"
    by (intro input_loop_self_loop) (simp_all add: registered_head_def)
  with assms False show ?thesis
    by (simp add: net_input_handler_def registered_head_def)
qed

lemma frames_on_head:
  assumes "registered_head type handler proto s" "net_input_frames frames s = Some s2"
  shows "registered_head type handler proto s2
    \<and> proto_queue (proto_mem s2 proto) = proto_queue (proto_mem s proto) @ map entry_of_frame frames
    \<and> handled s2 = handled s"
  using assms
proof (induction frames arbitrary: s)
  case Nil
  then show ?case by simp
next
  case (Cons frame frames)
  obtain type' data len dev where frame: "frame = (type', data, len, dev)"
    by (cases frame) auto
  let ?s' = "s\<lparr>proto_mem := (proto_mem s)
                        (proto := (proto_mem s proto)
                           \<lparr>proto_queue := proto_queue (proto_mem s proto)
                              @ [entry_of_frame (type', data, len, dev)]\<rparr>),
                      irqs := Suc (irqs s)\<rparr>"
  from Cons.prems have ty: "type' = type" and rest: "net_input_frames frames ?s' = Some s2"
    by (auto simp: frame input_on_head[OF Cons.prems(1)] split: if_splits)
  from Cons.prems(1) have "registered_head type handler proto ?s'"
    by (simp add: registered_head_def)
  from Cons.IH[OF this rest] show ?case
    by (simp add: frame)
qed

lemma drain_after_frames:
  assumes "net_protocol_register type handler alloc s0 = Some (0, s1)"
    and "net_input_frames frames s1 = Some s2"
  shows "handled (net_softirq_handler_drain alloc s2) =
     handled s1 @
       map (\<lambda>entry. \<lparr>hcall_handler = handler, hcall_data = entry_data entry,
                      hcall_len = entry_len entry, hcall_dev = entry_dev entry\<rparr>)
         (map entry_of_frame frames)"
proof -
  from register_gives_head[OF assms(1)] have
    h1: "registered_head type handler alloc s1" and q1: "proto_queue (proto_mem s1 alloc) = []"
    by simp_all
  from frames_on_head[OF h1 assms(2)] q1 show ?thesis
    by (simp add: drain_result registered_head_def)
qed

section \<open>Claims on the registry and the dispatcher\<close>

text \<open>
  Claim C9. After \<open>net_protocol_register(type, handler)\<close> has succeeded, and after any
  sequence of frames has since been delivered through \<open>net_input_handler\<close>, a second
  \<open>net_protocol_register\<close> with the same type fails (returns -1) whatever handler it is
  given, and changes nothing: the head of the registry is still the record of the first
  registration, with its type, its handler and its queue holding the delivered frames in
  order.
\<close>

theorem net_protocol_register_twice:
  assumes "net_protocol_register type handler alloc s0 = Some (0, s1)"
    and "net_input_frames frames s1 = Some s2"
  shows "net_protocol_register type handler' alloc' s2 = Some (- 1, s2)
    \<and> protocols s2 = alloc \<and> alloc \<noteq> NULL
    \<and> proto_type (proto_mem s2 alloc) = type
    \<and> proto_handler (proto_mem s2 alloc) = handler
    \<and> proto_queue (proto_mem s2 alloc) = map entry_of_frame frames"
proof -
  from register_gives_head[OF assms(1)] have
    h1: "registered_head type handler alloc s1" and q1: "proto_queue (proto_mem s1 alloc) = []"
    by simp_all
  from frames_on_head[OF h1 assms(2)] q1 have
    h2: "registered_head type handler alloc s2"
    and q2: "proto_queue (proto_mem s2 alloc) = map entry_of_frame frames"
    by simp_all
  from register_on_head[OF h2] h2 q2 show ?thesis
    by (simp add: registered_head_def)
qed

lemma example_register:
  "net_protocol_register ETHER_TYPE_IP 10 1 (net_state_init example_mem)
     = Some (0, example_registered)"
  by (simp add: net_protocol_register_def net_state_init_def example_registered_def
        net_protocol_register_loop.simps NULL_def)

lemma example_registered_head: "registered_head ETHER_TYPE_IP 10 1 example_registered"
  by (simp add: registered_head_def example_registered_def NULL_def)

lemma example_input:
  "net_input_handler ETHER_TYPE_IP [1, 2, 3] 3 7 True example_registered
     = Some (0, example_queued)"
proof -
  have "proto_queue (proto_mem example_registered 1) = []" "irqs example_registered = 0"
    by (simp_all add: example_registered_def)
  then show ?thesis
    by (subst input_on_head[OF example_registered_head])
       (simp add: example_queued_def entry_of_frame_def)
qed

lemma example_frames:
  "net_input_frames [(ETHER_TYPE_IP, [1, 2, 3], 3, 7)] example_registered = Some example_queued"
  by (simp add: example_input)

theorem net_protocol_register_twice_witness:
  "net_protocol_register ETHER_TYPE_IP 10 1 (net_state_init example_mem)
     = Some (0, example_registered)
   \<and> net_input_frames [(ETHER_TYPE_IP, [1, 2, 3], 3, 7)] example_registered
       = Some example_queued
   \<and> net_protocol_register ETHER_TYPE_IP 99 5 example_queued = Some (- 1, example_queued)
   \<and> protocols example_queued = 1
   \<and> proto_handler (proto_mem example_queued 1) = 10
   \<and> proto_queue (proto_mem example_queued 1) =
       map entry_of_frame [(ETHER_TYPE_IP, [1, 2, 3], 3, 7)]"
  using net_protocol_register_twice [OF example_register example_frames, of 99 5]
        example_register example_frames
  by simp

text \<open>
  Claim C2 (the code at its failing input). The registry holds one protocol: the first
  \<open>net_protocol_register\<close> succeeds and leaves a record whose \<open>next\<close> is the record
  itself. On that registry, with every queue empty, \<open>net_softirq_handler\<close> never
  returns: after draining the record's queue the \<open>for\<close> loop moves to
  \<open>proto->next\<close>, the same record, for ever.
\<close>

theorem net_softirq_handler_never_returns:
  "net_protocol_register ETHER_TYPE_IP 10 1 (net_state_init example_mem)
     = Some (0, example_registered)
   \<and> proto_queue (proto_mem example_registered 1) = []
   \<and> net_softirq_handler example_registered = None"
proof (intro conjI)
  show "net_protocol_register ETHER_TYPE_IP 10 1 (net_state_init example_mem)
     = Some (0, example_registered)"
    by (rule example_register)
  show "proto_queue (proto_mem example_registered 1) = []"
    by (simp add: example_registered_def)
  show "net_softirq_handler example_registered = None"
    unfolding net_softirq_handler_def
    by (rule softirq_loop_self_loop) (simp_all add: example_registered_def NULL_def)
qed

text \<open>
  Claim C7 (the code at its failing input). The registry holds one protocol, of type IP.
  \<open>net_input_handler\<close> called with type ARP, which matches no registered protocol,
  never returns: the scan follows \<open>proto->next\<close> from the only record back to itself.
\<close>

theorem net_input_handler_unknown_type_never_returns:
  "net_protocol_register ETHER_TYPE_IP 10 1 (net_state_init example_mem)
     = Some (0, example_registered)
   \<and> ETHER_TYPE_ARP \<noteq> ETHER_TYPE_IP
   \<and> net_input_handler ETHER_TYPE_ARP [1, 2, 3] 3 7 True example_registered = None"
proof (intro conjI)
  show "net_protocol_register ETHER_TYPE_IP 10 1 (net_state_init example_mem)
     = Some (0, example_registered)"
    by (rule example_register)
  show ne: "ETHER_TYPE_ARP \<noteq> ETHER_TYPE_IP"
    by (simp add: ETHER_TYPE_ARP_def ETHER_TYPE_IP_def)
  show "net_input_handler ETHER_TYPE_ARP [1, 2, 3] 3 7 True example_registered = None"
    by (subst input_on_head[OF example_registered_head]) (simp add: ne)
qed

lemma register_other_type_on_head:
  assumes "registered_head type handler proto s" "type' \<noteq> type"
  shows "net_protocol_register type' handler' alloc' s = None"
proof -
  from assms have "net_protocol_register_loop (proto_mem s) type' (protocols s) = None"
    by (intro register_loop_self_loop) (simp_all add: registered_head_def)
  then show ?thesis by (simp add: net_protocol_register_def)
qed

lemma input_on_empty_registry:
  "protocols s = NULL \<Longrightarrow> net_input_handler type data len dev alloc_ok s = Some (0, s)"
  unfolding net_input_handler_def
  by (subst net_input_handler_loop.simps) simp

lemma softirq_on_empty_registry:
  "protocols s = NULL \<Longrightarrow> net_softirq_handler s = Some (0, s)"
  unfolding net_softirq_handler_def
  by (subst net_softirq_handler_loop.simps) simp

lemma softirq_after_register:
  assumes "net_protocol_register type handler alloc s = Some (0, s1)"
    and "net_input_frames frames s1 = Some s2"
  shows "net_softirq_handler s2 = None"
proof -
  from register_gives_head[OF assms(1)] have "registered_head type handler alloc s1" by simp
  from frames_on_head[OF this assms(2)] have "registered_head type handler alloc s2" by simp
  then show ?thesis
    unfolding net_softirq_handler_def
    by (intro softirq_loop_self_loop) (simp_all add: registered_head_def)
qed

section \<open>The dispatcher on a \<open>NULL\<close>-terminated list\<close>

text \<open>On a registry that is a proper list of distinct records, one run of
  \<open>net_softirq_handler\<close> returns 0 with every queue of the list empty, and touches no
  other record. Such a list is what prepending (\<open>proto->next = protocols\<close>) would
  build; \<open>net_protocol_register\<close> as written builds none with a record in it.\<close>

lemma proto_list_cong:
  "(\<And>p. proto_next (mem' p) = proto_next (mem p)) \<Longrightarrow>
     proto_list mem' proto ps = proto_list mem proto ps"
  by (induction ps arbitrary: proto) simp_all

lemma drain_other:
  "p \<noteq> proto \<Longrightarrow> proto_mem (net_softirq_handler_drain proto s) p = proto_mem s p"
  by (simp add: drain_result)

lemma drain_queue:
  "proto_queue (proto_mem (net_softirq_handler_drain proto s) proto) = []"
  by (simp add: drain_result)

lemma softirq_on_list:
  assumes "proto_list (proto_mem s) proto ps" "distinct ps"
  shows "\<exists>s'. net_softirq_handler_loop proto s = Some (0, s')
           \<and> (\<forall>p \<in> set ps. proto_queue (proto_mem s' p) = [])
           \<and> (\<forall>p. p \<notin> set ps \<longrightarrow> proto_mem s' p = proto_mem s p)
           \<and> (\<forall>p. proto_next (proto_mem s' p) = proto_next (proto_mem s p))"
  using assms
proof (induction ps arbitrary: proto s)
  case Nil
  then show ?case
    by (subst net_softirq_handler_loop.simps) simp
next
  case (Cons p ps)
  let ?s1 = "net_softirq_handler_drain p s"
  from Cons.prems have p: "proto = p" "p \<noteq> NULL"
    and rest: "proto_list (proto_mem s) (proto_next (proto_mem s p)) ps"
    and d: "p \<notin> set ps" "distinct ps"
    by simp_all
  have "proto_list (proto_mem ?s1) (proto_next (proto_mem ?s1 p)) ps"
    using rest by (simp add: proto_list_cong[of "proto_mem ?s1" "proto_mem s"])
  from Cons.IH[OF this d(2)] obtain s' where
    run: "net_softirq_handler_loop (proto_next (proto_mem ?s1 p)) ?s1 = Some (0, s')"
    and empty: "\<forall>q \<in> set ps. proto_queue (proto_mem s' q) = []"
    and frame: "\<forall>q. q \<notin> set ps \<longrightarrow> proto_mem s' q = proto_mem ?s1 q"
    and nexts: "\<forall>q. proto_next (proto_mem s' q) = proto_next (proto_mem ?s1 q)"
    by blast
  have "net_softirq_handler_loop proto s = Some (0, s')"
    using p run by (subst net_softirq_handler_loop.simps) (simp add: Let_def)
  moreover from frame d(1) have "proto_queue (proto_mem s' p) = []"
    by (simp add: drain_queue)
  moreover from frame have "\<forall>q. q \<notin> set (p # ps) \<longrightarrow> proto_mem s' q = proto_mem s q"
    by (simp add: drain_other)
  moreover from nexts have "\<forall>q. proto_next (proto_mem s' q) = proto_next (proto_mem s q)"
    by simp
  ultimately show ?case using empty by auto
qed

section \<open>The dispatcher, round by round\<close>

lemma softirq_loop_iter_run:
  assumes "net_softirq_handler_loop proto s = Some y"
  shows "fst y = 0 \<and> (\<exists>n. net_softirq_handler_iter n proto s = (NULL, snd y))"
proof (rule net_softirq_handler_loop.raw_induct
    [where P = "\<lambda>proto s y. fst y = 0
                  \<and> (\<exists>n. net_softirq_handler_iter n proto s = (NULL, snd y))",
     OF _ assms])
  fix f :: "nat \<Rightarrow> net_state \<Rightarrow> (int \<times> net_state) option"
    and proto s y
  assume IH: "\<And>proto s y. f proto s = Some y \<Longrightarrow>
                fst y = 0 \<and> (\<exists>n. net_softirq_handler_iter n proto s = (NULL, snd y))"
    and step: "(if proto = NULL then Some (0, s)
                else let s' = net_softirq_handler_drain proto s
                     in f (proto_next (proto_mem s' proto)) s') = Some y"
  show "fst y = 0 \<and> (\<exists>n. net_softirq_handler_iter n proto s = (NULL, snd y))"
  proof (cases "proto = NULL")
    case True
    with step have "y = (0, s)" by simp
    moreover from True have "net_softirq_handler_iter 0 proto s = (NULL, s)" by simp
    ultimately show ?thesis by (metis fst_conv snd_conv)
  next
    case False
    let ?s1 = "net_softirq_handler_drain proto s"
    from False step have "f (proto_next (proto_mem ?s1 proto)) ?s1 = Some y"
      by (simp add: Let_def)
    from IH[OF this] obtain n where "fst y = 0"
      "net_softirq_handler_iter n (proto_next (proto_mem ?s1 proto)) ?s1 = (NULL, snd y)"
      by blast
    with False have "net_softirq_handler_iter (Suc n) proto s = (NULL, snd y)"
      by (simp add: Let_def)
    with \<open>fst y = 0\<close> show ?thesis by blast
  qed
qed

lemma softirq_loop_iter:
  "net_softirq_handler_loop proto s = Some (r, s') \<longleftrightarrow>
     r = 0 \<and> (\<exists>n. net_softirq_handler_iter n proto s = (NULL, s'))"
proof
  assume "net_softirq_handler_loop proto s = Some (r, s')"
  from softirq_loop_iter_run[OF this]
  show "r = 0 \<and> (\<exists>n. net_softirq_handler_iter n proto s = (NULL, s'))" by simp
next
  assume "r = 0 \<and> (\<exists>n. net_softirq_handler_iter n proto s = (NULL, s'))"
  then obtain n where r: "r = 0" and n: "net_softirq_handler_iter n proto s = (NULL, s')"
    by blast
  from n have "net_softirq_handler_loop proto s = Some (0, s')"
  proof (induction n arbitrary: proto s)
    case 0
    then show ?case by (subst net_softirq_handler_loop.simps) simp
  next
    case (Suc n)
    show ?case
    proof (cases "proto = NULL")
      case True
      with Suc.prems show ?thesis by (subst net_softirq_handler_loop.simps) simp
    next
      case False
      with Suc.prems have "net_softirq_handler_iter n
          (proto_next (proto_mem (net_softirq_handler_drain proto s) proto))
          (net_softirq_handler_drain proto s) = (NULL, s')"
        by (simp add: Let_def)
      from Suc.IH[OF this] False show ?thesis
        by (subst net_softirq_handler_loop.simps) (simp add: Let_def)
    qed
  qed
  with r show "net_softirq_handler_loop proto s = Some (r, s')" by simp
qed





section \<open>The registries the program can reach\<close>

lemma registry_single_init: "registry_single (net_state_init mem)"
  by (simp add: registry_single_def net_state_init_def)

lemma registry_single_register:
  assumes "net_protocol_register type handler alloc s = Some (r, s')" "registry_single s"
  shows "registry_single s'"
  using assms
  by (auto simp: net_protocol_register_def registry_single_def Let_def
           split: option.splits bool.splits if_splits)

lemma registry_single_input:
  assumes "net_input_handler type data len dev alloc_ok s = Some (r, s')" "registry_single s"
  shows "registry_single s'"
proof (cases "protocols s = NULL")
  case True
  with assms(1) have "s' = s" by (simp add: input_on_empty_registry)
  with assms(2) show ?thesis by simp
next
  case False
  with assms(2) have self: "proto_next (proto_mem s (protocols s)) = protocols s"
    by (simp add: registry_single_def)
  show ?thesis
  proof (cases "proto_type (proto_mem s (protocols s)) = type")
    case True
    with False assms(1) have "s' = s \<or> s' = s\<lparr>proto_mem := (proto_mem s)
            (protocols s := (proto_mem s (protocols s))
               \<lparr>proto_queue := queue_push (proto_queue (proto_mem s (protocols s)))
                  \<lparr>entry_dev = dev, entry_len = len, entry_data = take len data\<rparr>\<rparr>),
          irqs := Suc (irqs s)\<rparr>"
      unfolding net_input_handler_def
      by (subst (asm) net_input_handler_loop.simps) (auto simp: Let_def split: if_splits)
    with self False show ?thesis by (auto simp: registry_single_def)
  next
    case False
    with \<open>protocols s \<noteq> NULL\<close> self assms(1) show ?thesis
      by (simp add: net_input_handler_def input_loop_self_loop)
  qed
qed

lemma registry_single_softirq:
  assumes "net_softirq_handler s = Some (r, s')" "registry_single s"
  shows "s' = s \<and> protocols s = NULL"
proof (cases "protocols s = NULL")
  case True
  with assms(1) show ?thesis by (simp add: softirq_on_empty_registry)
next
  case False
  with assms(2) have "net_softirq_handler s = None"
    unfolding net_softirq_handler_def
    by (intro softirq_loop_self_loop) (simp_all add: registry_single_def)
  with assms(1) show ?thesis by simp
qed

lemma input_matches_head:
  assumes "registry_single s" "protocols s \<noteq> NULL"
    and "net_input_handler type data len dev alloc_ok s = Some (r, s')"
  shows "proto_type (proto_mem s (protocols s)) = type"
proof (rule ccontr)
  assume "proto_type (proto_mem s (protocols s)) \<noteq> type"
  with assms(1,2) have "net_input_handler type data len dev alloc_ok s = None"
    by (simp add: net_input_handler_def input_loop_self_loop registry_single_def)
  with assms(3) show False by simp
qed

section \<open>Claim on delivery order\<close>





section \<open>Claim on allocation\<close>

text \<open>
  Claim C10. On the 32-slot table \<open>arp_cache_alloc\<close> never returns \<open>NULL\<close>. It returns
  a slot \<open>i\<close> of the table: when some slot is FREE, the first FREE slot in scan order,
  with the table unchanged; when no slot is FREE, the oldest slot (the first one in scan
  order with the smallest time stamp), cleared, with every other slot unchanged. In both
  cases the returned slot is FREE and the table keeps its 32 slots. Hence
  \<open>arp_cache_insert\<close> never takes its allocation-failure branch: it returns that same
  slot, filled with the new entry.
\<close>

theorem arp_cache_alloc_returns_slot:
  assumes "length caches = ARP_CACHE_SIZE"
  shows "\<exists>i<ARP_CACHE_SIZE.
      fst (arp_cache_alloc caches) = Some i
    \<and> (if \<exists>j<ARP_CACHE_SIZE. cache_state (caches ! j) = ARP_CACHE_STATE_FREE
        then cache_state (caches ! i) = ARP_CACHE_STATE_FREE
             \<and> (\<forall>j<i. cache_state (caches ! j) \<noteq> ARP_CACHE_STATE_FREE)
             \<and> arp_cache_alloc caches = (Some i, caches)
        else oldest_first caches ARP_CACHE_SIZE i
             \<and> arp_cache_alloc caches =
                 (Some i, caches[i := \<lparr>cache_state = ARP_CACHE_STATE_FREE, cache_pa = 0,
                                       cache_ha = replicate ETHER_ADDR_LEN 0,
                                       cache_timestamp = timerclear\<rparr>]))
    \<and> length (snd (arp_cache_alloc caches)) = ARP_CACHE_SIZE
    \<and> cache_state (snd (arp_cache_alloc caches) ! i) = ARP_CACHE_STATE_FREE
    \<and> (\<forall>j<ARP_CACHE_SIZE. j \<noteq> i \<longrightarrow> snd (arp_cache_alloc caches) ! j = caches ! j)
    \<and> fst (arp_cache_insert pa ha now caches) \<noteq> None
    \<and> arp_cache_insert pa ha now caches =
        (Some i, caches[i := \<lparr>cache_state = ARP_CACHE_STATE_RESOLVED, cache_pa = pa,
                              cache_ha = take ETHER_ADDR_LEN ha,
                              cache_timestamp = now\<rparr>])"
proof (cases "\<exists>j<ARP_CACHE_SIZE. cache_state (caches ! j) = ARP_CACHE_STATE_FREE")
  case True
  with assms have "\<exists>j<length caches. cache_state (caches ! j) = ARP_CACHE_STATE_FREE" by simp
  from alloc_free[OF this] obtain i where
    lt: "i < length caches" and fr: "cache_state (caches ! i) = ARP_CACHE_STATE_FREE"
    and first: "\<forall>j<i. cache_state (caches ! j) \<noteq> ARP_CACHE_STATE_FREE"
    and al: "arp_cache_alloc caches = (Some i, caches)"
    by auto
  have ins: "arp_cache_insert pa ha now caches =
        (Some i, caches[i := \<lparr>cache_state = ARP_CACHE_STATE_RESOLVED, cache_pa = pa,
                              cache_ha = take ETHER_ADDR_LEN ha,
                              cache_timestamp = now\<rparr>])"
    using al by (simp add: arp_cache_insert_def arp_cache_entry_overwrite)
  show ?thesis
    using True lt fr first assms
    by (intro exI[of _ i]) (simp add: al ins)
next
  case False
  then have full: "\<forall>j<length caches. cache_state (caches ! j) \<noteq> ARP_CACHE_STATE_FREE"
    using assms by simp
  from assms have ne: "caches \<noteq> []" by (auto simp: ARP_CACHE_SIZE_def)
  from alloc_full[OF ne full] assms obtain i where
    i: "oldest_first caches ARP_CACHE_SIZE i"
    and al: "arp_cache_alloc caches = (Some i, arp_cache_delete i caches)"
    by auto
  from i assms have lt: "i < length caches" by (simp add: oldest_first_def)
  have del: "arp_cache_delete i caches =
      caches[i := \<lparr>cache_state = ARP_CACHE_STATE_FREE, cache_pa = 0,
                   cache_ha = replicate ETHER_ADDR_LEN 0, cache_timestamp = timerclear\<rparr>]"
    by (simp add: arp_cache_delete_def arp_cache_entry_overwrite)
  have ins: "arp_cache_insert pa ha now caches =
        (Some i, caches[i := \<lparr>cache_state = ARP_CACHE_STATE_RESOLVED, cache_pa = pa,
                              cache_ha = take ETHER_ADDR_LEN ha,
                              cache_timestamp = now\<rparr>])"
    using al lt by (simp add: arp_cache_insert_def del arp_cache_entry_overwrite)
  show ?thesis
    using False lt i assms
    by (intro exI[of _ i]) (simp add: al ins del)
qed

theorem arp_cache_alloc_returns_slot_witness:
  "length example_caches_full = ARP_CACHE_SIZE
   \<and> (\<exists>i<ARP_CACHE_SIZE. oldest_first example_caches_full ARP_CACHE_SIZE i
         \<and> arp_cache_alloc example_caches_full =
             (Some i, example_caches_full[i :=
                \<lparr>cache_state = ARP_CACHE_STATE_FREE, cache_pa = 0,
                 cache_ha = replicate ETHER_ADDR_LEN 0, cache_timestamp = timerclear\<rparr>])
         \<and> fst (arp_cache_insert 0x0100000a [1, 2, 3, 4, 5, 6] \<lparr>tv_sec = 200, tv_usec = 5\<rparr>
                  example_caches_full) \<noteq> None)
   \<and> length example_caches_free = ARP_CACHE_SIZE
   \<and> (\<exists>i<ARP_CACHE_SIZE. cache_state (example_caches_free ! i) = ARP_CACHE_STATE_FREE
         \<and> arp_cache_alloc example_caches_free = (Some i, example_caches_free)
         \<and> fst (arp_cache_insert 0x0100000a [1, 2, 3, 4, 5, 6] \<lparr>tv_sec = 200, tv_usec = 5\<rparr>
                  example_caches_free) \<noteq> None)"
proof -
  have no_free: "\<not> (\<exists>j<ARP_CACHE_SIZE.
      cache_state (example_caches_full ! j) = ARP_CACHE_STATE_FREE)"
    using example_caches_full_nonfree by blast
  from arp_cache_alloc_returns_slot [OF example_caches_full_length,
         of "0x0100000a" "[1, 2, 3, 4, 5, 6]" "\<lparr>tv_sec = 200, tv_usec = 5\<rparr>"]
  have full: "\<exists>i<ARP_CACHE_SIZE. oldest_first example_caches_full ARP_CACHE_SIZE i
         \<and> arp_cache_alloc example_caches_full =
             (Some i, example_caches_full[i :=
                \<lparr>cache_state = ARP_CACHE_STATE_FREE, cache_pa = 0,
                 cache_ha = replicate ETHER_ADDR_LEN 0, cache_timestamp = timerclear\<rparr>])
         \<and> fst (arp_cache_insert 0x0100000a [1, 2, 3, 4, 5, 6] \<lparr>tv_sec = 200, tv_usec = 5\<rparr>
                  example_caches_full) \<noteq> None"
    unfolding if_not_P[OF no_free] by blast
  from arp_cache_alloc_returns_slot [OF example_caches_free_length,
         of "0x0100000a" "[1, 2, 3, 4, 5, 6]" "\<lparr>tv_sec = 200, tv_usec = 5\<rparr>"]
  have free: "\<exists>i<ARP_CACHE_SIZE. cache_state (example_caches_free ! i) = ARP_CACHE_STATE_FREE
         \<and> arp_cache_alloc example_caches_free = (Some i, example_caches_free)
         \<and> fst (arp_cache_insert 0x0100000a [1, 2, 3, 4, 5, 6] \<lparr>tv_sec = 200, tv_usec = 5\<rparr>
                  example_caches_free) \<noteq> None"
    unfolding if_P[OF example_caches_free_has_free] by blast
  from full free example_caches_full_length example_caches_free_length
  show ?thesis by blast
qed

lemma example_caches_full_alloc:
  "arp_cache_alloc example_caches_full = (Some 7, arp_cache_delete 7 example_caches_full)"
  by code_simp

end
